theory Spec2Isabelle
  imports Complex_Main
begin

section \<open>Strings\<close>

text \<open>
  A Python \<open>str\<close> is a sequence of Unicode code points, so it is modelled as a list of
  naturals.  ASCII text is written as an Isabelle string and converted with \<open>cps\<close>;
  the three non-ASCII characters of \<^verbatim>\<open>pipeline.py\<close> get names of their own.
\<close>

type_synonym pystr = "nat list"

definition cp :: "char \<Rightarrow> nat" where
  "cp c = of_char c"

definition cps :: "string \<Rightarrow> pystr" where
  "cps s = map cp s"

definition c_euro :: nat where "c_euro = 8364"   \<comment> \<open>U+20AC\<close>
definition c_pound :: nat where "c_pound = 163"  \<comment> \<open>U+00A3\<close>
definition c_yen :: nat where "c_yen = 165"      \<comment> \<open>U+00A5\<close>

text \<open>
  \<open>str.isspace\<close> of one code point; the same set is what \<^verbatim>\<open>\s\<close> matches in a
  \<open>str\<close> pattern and what \<open>str.strip()\<close> removes.
\<close>

definition py_isspace :: "nat \<Rightarrow> bool" where
  "py_isspace c \<longleftrightarrow>
     (9 \<le> c \<and> c \<le> 13) \<or> (28 \<le> c \<and> c \<le> 32) \<or> c = 133 \<or> c = 160 \<or> c = 5760 \<or>
     (8192 \<le> c \<and> c \<le> 8202) \<or> c = 8232 \<or> c = 8233 \<or> c = 8239 \<or> c = 8287 \<or> c = 12288"

definition py_strip :: "pystr \<Rightarrow> pystr" where
  "py_strip s = rev (dropWhile py_isspace (rev (dropWhile py_isspace s)))"

section \<open>The regular expressions of \<^verbatim>\<open>parse_price_any\<close>\<close>

text \<open>
  The constructs the six patterns use: a literal, a character set (single characters,
  ranges, \<^verbatim>\<open>\s\<close>), sequence, alternation, the greedy \<^verbatim>\<open>*\<close> and \<^verbatim>\<open>?\<close>, and a
  numbered capturing group.  A non-capturing group \<^verbatim>\<open>(?:...)\<close> is plain nesting, and
  \<^verbatim>\<open>[0-9]{2}\<close> is written as two \<^verbatim>\<open>[0-9]\<close> in sequence.
\<close>

datatype citem = CChar nat | CRange nat nat | CSpace

datatype regex =
    Lit nat
  | In "citem list"
  | Seq regex regex
  | Alt regex regex
  | Star regex
  | Opt regex
  | Grp nat regex

text \<open>
  \<^verbatim>\<open>re.IGNORECASE\<close> on a \<open>str\<close> pattern: a literal matches a character when both have
  the same lower case, or when the two are case-equivalent by the engine's table of
  extra equivalences.  For an ASCII letter these are its two cases, and further
  U+017F for s, U+212A for k, U+0130 and U+0131 for i.  The other literals of the
  patterns (\<^verbatim>\<open>$\<close> and the three currency signs) have no case and match themselves.
\<close>

definition ascii_lower :: "nat \<Rightarrow> nat" where
  "ascii_lower c = (if 65 \<le> c \<and> c \<le> 90 then c + 32 else c)"

definition ci_match :: "nat \<Rightarrow> nat \<Rightarrow> bool" where
  "ci_match p x \<longleftrightarrow>
     (let l = ascii_lower p in
        ascii_lower x = l \<or> (l = 115 \<and> x = 383) \<or> (l = 107 \<and> x = 8490) \<or>
        (l = 105 \<and> (x = 304 \<or> x = 305)))"

fun in_item :: "citem \<Rightarrow> nat \<Rightarrow> bool" where
  "in_item (CChar c) x = (x = c)"
| "in_item (CRange lo hi) x = (lo \<le> x \<and> x \<le> hi)"
| "in_item CSpace x = py_isspace x"

definition in_set :: "citem list \<Rightarrow> nat \<Rightarrow> bool" where
  "in_set items x = list_ex (\<lambda>i. in_item i x) items"

text \<open>
  A match object, reduced to its groups: the text each numbered group captured, the
  latest capture first.
\<close>

type_synonym caps = "(nat \<times> pystr) list"

text \<open>
  The backtracking matcher.  \<open>rmatch r s c\<close> lists every way \<open>r\<close> can match a prefix of
  \<open>s\<close>, as the remaining text and the groups, in the order the engine tries them:
  the left alternative before the right one, the longer repetition before the shorter.
  The guard in the \<open>Star\<close> case stops an iteration that consumed nothing (the engine has
  the same guard); the starred expressions of the patterns always consume one character.
\<close>

fun rmatch :: "regex \<Rightarrow> pystr \<Rightarrow> caps \<Rightarrow> (pystr \<times> caps) list" where
  "rmatch (Lit p) s c =
     (case s of [] \<Rightarrow> [] | x # xs \<Rightarrow> if ci_match p x then [(xs, c)] else [])"
| "rmatch (In items) s c =
     (case s of [] \<Rightarrow> [] | x # xs \<Rightarrow> if in_set items x then [(xs, c)] else [])"
| "rmatch (Seq a b) s c =
     concat (map (\<lambda>(s', c'). rmatch b s' c') (rmatch a s c))"
| "rmatch (Alt a b) s c = rmatch a s c @ rmatch b s c"
| "rmatch (Star a) s c =
     concat (map (\<lambda>(s', c'). if length s' < length s then rmatch (Star a) s' c' else [])
                 (rmatch a s c)) @ [(s, c)]"
| "rmatch (Opt a) s c = rmatch a s c @ [(s, c)]"
| "rmatch (Grp k a) s c =
     map (\<lambda>(s', c'). (s', (k, take (length s - length s') s) # c')) (rmatch a s c)"

text \<open>
  \<^verbatim>\<open>re.search\<close>: the first start position, from the left, at which the pattern
  matches; there, the first way the matcher finds.
\<close>

fun search :: "regex \<Rightarrow> pystr \<Rightarrow> caps option" where
  "search r [] = (case rmatch r [] [] of [] \<Rightarrow> None | (s', c) # _ \<Rightarrow> Some c)"
| "search r (x # xs) =
     (case rmatch r (x # xs) [] of [] \<Rightarrow> search r xs | (s', c) # _ \<Rightarrow> Some c)"

definition group :: "caps \<Rightarrow> nat \<Rightarrow> pystr option" where
  "group m k = map_of m k"

subsection \<open>The six patterns\<close>

definition lit :: "char \<Rightarrow> regex" where
  "lit ch = Lit (cp ch)"

definition word2 :: "char \<Rightarrow> char \<Rightarrow> regex" where
  "word2 a b = Seq (lit a) (lit b)"

definition word3 :: "char \<Rightarrow> char \<Rightarrow> char \<Rightarrow> regex" where
  "word3 a b c = Seq (lit a) (Seq (lit b) (lit c))"

definition digit :: "citem list" where
  "digit = [CRange (cp CHR ''0'') (cp CHR ''9'')]"

definition digit_comma :: "citem list" where
  "digit_comma = [CRange (cp CHR ''0'') (cp CHR ''9''), CChar (cp CHR '','')]"

definition spaces :: regex where   \<comment> \<open>\<^verbatim>\<open>\s*\<close>\<close>
  "spaces = Star (In [CSpace])"

definition amount_frac :: regex where   \<comment> \<open>\<^verbatim>\<open>[0-9][0-9,]*(?:\.[0-9]{2})?\<close>\<close>
  "amount_frac =
     Seq (In digit) (Seq (Star (In digit_comma))
       (Opt (Seq (lit CHR ''.'') (Seq (In digit) (In digit)))))"

definition amount_int :: regex where   \<comment> \<open>\<^verbatim>\<open>[0-9][0-9,]*\<close>\<close>
  "amount_int = Seq (In digit) (Star (In digit_comma))"

definition pat_usd :: regex where   \<comment> \<open>\<^verbatim>\<open>(USD|US\s?\$|\$)\s*([0-9][0-9,]*(?:\.[0-9]{2})?)\<close>\<close>
  "pat_usd =
     Seq (Grp 1 (Alt (word3 CHR ''U'' CHR ''S'' CHR ''D'')
               (Alt (Seq (word2 CHR ''U'' CHR ''S'') (Seq (Opt (In [CSpace])) (lit CHR ''$'')))
                    (lit CHR ''$''))))
         (Seq spaces (Grp 2 amount_frac))"

definition pat_eur :: regex where   \<comment> \<open>\<^verbatim>\<open>(EUR|\<close>U+20AC\<^verbatim>\<open>)\s*([0-9][0-9,]*(?:\.[0-9]{2})?)\<close>\<close>
  "pat_eur =
     Seq (Grp 1 (Alt (word3 CHR ''E'' CHR ''U'' CHR ''R'') (Lit c_euro))) (Seq spaces (Grp 2 amount_frac))"

definition pat_gbp :: regex where   \<comment> \<open>\<^verbatim>\<open>(GBP|\<close>U+00A3\<^verbatim>\<open>)\s*([0-9][0-9,]*(?:\.[0-9]{2})?)\<close>\<close>
  "pat_gbp =
     Seq (Grp 1 (Alt (word3 CHR ''G'' CHR ''B'' CHR ''P'') (Lit c_pound))) (Seq spaces (Grp 2 amount_frac))"

definition pat_cad :: regex where   \<comment> \<open>\<^verbatim>\<open>(CAD|C\$)\s*([0-9][0-9,]*(?:\.[0-9]{2})?)\<close>\<close>
  "pat_cad =
     Seq (Grp 1 (Alt (word3 CHR ''C'' CHR ''A'' CHR ''D'') (word2 CHR ''C'' CHR ''$''))) (Seq spaces (Grp 2 amount_frac))"

definition pat_aud :: regex where   \<comment> \<open>\<^verbatim>\<open>(AUD|A\$)\s*([0-9][0-9,]*(?:\.[0-9]{2})?)\<close>\<close>
  "pat_aud =
     Seq (Grp 1 (Alt (word3 CHR ''A'' CHR ''U'' CHR ''D'') (word2 CHR ''A'' CHR ''$''))) (Seq spaces (Grp 2 amount_frac))"

definition pat_jpy :: regex where   \<comment> \<open>\<^verbatim>\<open>(JPY|\<close>U+00A5\<^verbatim>\<open>)\s*([0-9][0-9,]*)\<close>\<close>
  "pat_jpy =
     Seq (Grp 1 (Alt (word3 CHR ''J'' CHR ''P'' CHR ''Y'') (Lit c_yen))) (Seq spaces (Grp 2 amount_int))"

definition patterns :: "(regex \<times> string) list" where
  "patterns =
     [(pat_usd, ''USD''), (pat_eur, ''EUR''), (pat_gbp, ''GBP''),
      (pat_cad, ''CAD''), (pat_aud, ''AUD''), (pat_jpy, ''JPY'')]"

section \<open>Exceptions and numbers\<close>

text \<open>
  A raised exception is its type name and its message (\<open>type(e).__name__\<close> and
  \<open>str(e)\<close>), and the side of the class hierarchy it is on, which is what an
  \<^verbatim>\<open>except Exception\<close> clause tests: \<open>Exn\<close> is an instance of \<open>Exception\<close>, \<open>BaseExn\<close> an
  instance of \<open>BaseException\<close> that is not one of \<open>Exception\<close> (\<open>KeyboardInterrupt\<close>,
  \<open>SystemExit\<close>, \<open>GeneratorExit\<close>).
\<close>

datatype exn = Exn pystr pystr | BaseExn pystr pystr

text \<open>
  A number of a parsed JSON text: \<^verbatim>\<open>json.loads\<close> gives an \<open>int\<close> for an integer literal
  and a \<open>float\<close> otherwise.  A float is held by its exact value; its rounding, \<open>inf\<close> and
  \<open>nan\<close> are not modelled.
\<close>

datatype number = IntNum int | FloatNum rat

text \<open>
  \<open>float(x)\<close> of a number.  A float is returned as it is.  An integer is converted, and
  the conversion raises \<open>OverflowError\<close> when the integer rounds beyond the largest double,
  that is from \<open>2^1024 - 2^970\<close> on; below, the result is the integer's value (rounding not
  modelled).
\<close>

definition OverflowError_int :: exn where
  "OverflowError_int = Exn (cps ''OverflowError'') (cps ''int too large to convert to float'')"

definition to_float :: "number \<Rightarrow> exn + rat" where
  "to_float x =
     (case x of
        FloatNum r \<Rightarrow> Inr r
      | IntNum k \<Rightarrow>
          if 2 ^ 1024 - 2 ^ 970 \<le> \<bar>k\<bar> then Inl OverflowError_int else Inr (of_int k))"

text \<open>
  \<open>float(s)\<close> on a plain decimal numeral: digits, then optionally a point and digits,
  with a digit on at least one side of the point.  The result is the exact decimal value;
  its rounding to a double is not modelled.  \<open>None\<close> stands for \<open>ValueError\<close>.  Python
  accepts further forms (a sign, an exponent, underscores, surrounding white space,
  \<open>inf\<close>, \<open>nan\<close>); on those this function answers \<open>None\<close>, so it succeeds only where
  Python does.
\<close>

definition is_digit :: "nat \<Rightarrow> bool" where
  "is_digit c \<longleftrightarrow> 48 \<le> c \<and> c \<le> 57"

definition dec_value :: "pystr \<Rightarrow> nat" where
  "dec_value ds = foldl (\<lambda>a d. 10 * a + (d - 48)) 0 ds"

definition py_float :: "pystr \<Rightarrow> rat option" where
  "py_float s =
     (let ip = takeWhile is_digit s in
      case dropWhile is_digit s of
        [] \<Rightarrow> if ip = [] then None else Some (of_nat (dec_value ip))
      | d # fp \<Rightarrow>
          if d = cp CHR ''.'' \<and> list_all is_digit fp \<and> (ip \<noteq> [] \<or> fp \<noteq> [])
          then Some (of_nat (dec_value (ip @ fp)) / 10 ^ length fp)
          else None)"

section \<open>\<^verbatim>\<open>parse_price_any\<close>\<close>

text \<open>
  The returned dictionary \<^verbatim>\<open>{"currency": cur, "amount": ...}\<close>: the amount is the float,
  or the comma-free text itself in the \<open>except ValueError\<close> branch.
\<close>

datatype amount = Number rat | Text pystr

record price =
  currency :: string
  amount :: amount

definition remove_commas :: "pystr \<Rightarrow> pystr" where   \<comment> \<open>\<^verbatim>\<open>.replace(",", "")\<close>\<close>
  "remove_commas s = filter (\<lambda>x. x \<noteq> cp CHR '','') s"

definition AttributeError_None :: exn where
  "AttributeError_None =
     Exn (cps ''AttributeError'') (cps ''NoneType object has no attribute replace'')"

text \<open>
  The body of \<^verbatim>\<open>if m:\<close>.  \<open>m.group(2)\<close> of a match in which group 2 took no part is
  \<open>None\<close>, and \<open>.replace\<close> on it raises.
\<close>

definition price_of :: "string \<Rightarrow> caps \<Rightarrow> exn + price option" where
  "price_of cur m =
     (case group m 2 of
        None \<Rightarrow> Inl AttributeError_None
      | Some g \<Rightarrow>
          (let amt = remove_commas g in
           case py_float amt of
             Some v \<Rightarrow> Inr (Some \<lparr>currency = cur, amount = Number v\<rparr>)
           | None \<Rightarrow> Inr (Some \<lparr>currency = cur, amount = Text amt\<rparr>)))"

text \<open>The loop over the patterns: the first pattern that matches returns.\<close>

fun try_patterns :: "(regex \<times> string) list \<Rightarrow> pystr \<Rightarrow> exn + price option" where
  "try_patterns [] s = Inr None"
| "try_patterns ((pat, cur) # ps) s =
     (case search pat s of
        None \<Rightarrow> try_patterns ps s
      | Some m \<Rightarrow> price_of cur m)"

definition parse_price_any :: "pystr \<Rightarrow> exn + price option" where
  "parse_price_any price_text =
     (if price_text = [] then Inr None else try_patterns patterns price_text)"

section \<open>The pipeline\<close>

subsection \<open>Data\<close>

text \<open>
  The identification result, as \<^verbatim>\<open>IDENT_SCHEMA_FORMAT\<close> types it: every key is
  required and present.  A field that the code reads with \<^verbatim>\<open>ident.get(k) or default\<close>
  is an option, \<open>None\<close> being a \<^verbatim>\<open>null\<close>, which the \<^verbatim>\<open>or\<close> replaces.
\<close>

record attributes =
  primary_color :: pystr
  material :: pystr
  metal_finish :: pystr
  closure :: pystr
  notable_markings :: pystr

record price_range =
  low :: number
  high :: number

record ident =
  brand :: "pystr option"
  model :: "pystr option"
  category :: "pystr option"
  aliases :: "pystr list option"
  confidence :: number
  attributes :: attributes
  typical_price_range_usd :: price_range
  estimated_market_value_usd :: number
  suggested_queries :: "pystr list option"
  rationale :: pystr

text \<open>
  A listing record of \<^verbatim>\<open>LISTINGS_SCHEMA_FORMAT\<close>.  The code reads every field with
  \<^verbatim>\<open>r.get(k, "")\<close>, so a field is an option and \<open>None\<close> is a missing key.  The search
  step adds the key \<^verbatim>\<open>parsed_price\<close> to each record.
\<close>

record listing =
  title :: "pystr option"
  url :: "pystr option"
  source :: "pystr option"
  price_text :: "pystr option"
  date_text :: "pystr option"
  listing_notes :: "pystr option"   \<comment> \<open>the key \<^verbatim>\<open>notes\<close>\<close>

record priced_listing = listing +
  parsed_price :: "price option"

text \<open>
  The parsed reply of the listings call, and what \<^verbatim>\<open>search_listings\<close> returns: the
  reply with its records annotated, or the degraded object, which alone has the key
  \<^verbatim>\<open>error\<close>.  \<open>results = None\<close> is a reply without the key \<^verbatim>\<open>results\<close>.
\<close>

record search_data =
  data_queries_used :: "pystr list"
  data_results :: "listing list option"

record listings =
  queries_used :: "pystr list"
  results :: "priced_listing list option"
  error :: "pystr option"

text \<open>
  The two remote calls.  What the provider answers is not the program's to decide, so
  each call's outcome is given: an exception (raised by \<^verbatim>\<open>responses.create\<close>, or by
  \<^verbatim>\<open>json.loads\<close> on its output), or the parsed object.  The request texts (prompts,
  data URLs) reach only the provider and are not modelled.
\<close>

record remote =
  ident_reply :: "exn + ident"
  search_reply :: "exn + search_data"

datatype event = ReadBody | IdentifyCall | SearchCall

subsection \<open>\<^verbatim>\<open>LuxuryPipeline.search_listings\<close>\<close>

definition c_dquote :: nat where "c_dquote = 34"

definition or_empty :: "'a list option \<Rightarrow> 'a list" where   \<comment> \<open>\<^verbatim>\<open>x or ""\<close>, \<^verbatim>\<open>x or []\<close>\<close>
  "or_empty x = (case x of None \<Rightarrow> [] | Some v \<Rightarrow> v)"

definition fallbacks :: "ident \<Rightarrow> pystr list" where
  "fallbacks i =
     (let brand' = py_strip (or_empty (brand i));
          model' = py_strip (or_empty (model i));
          category' = py_strip (or_empty (category i));
          aliases' = or_empty (aliases i);
          fb = [brand' @ cps '' '' @ [c_dquote] @ model' @ [c_dquote] @ cps '' price'',
                brand' @ cps '' '' @ [c_dquote] @ model' @ [c_dquote] @ cps '' '' @ category'
                  @ cps '' listing'']
      in case aliases' of
           [] \<Rightarrow> fb
         | a # _ \<Rightarrow>
             fb @ [brand' @ cps '' '' @ [c_dquote] @ a @ [c_dquote] @ cps '' '' @ category'
                     @ cps '' listing''])"

definition build_queries :: "ident \<Rightarrow> pystr list" where
  "build_queries i =
     (let suggested = take 8 (or_empty (suggested_queries i))
      in take 10 (filter (\<lambda>q. q \<noteq> []) (suggested @ fallbacks i)))"

text \<open>
  The loop of the \<open>try\<close> block: each record gets its parsed price; an exception of the
  parser leaves the loop.
\<close>

fun annotate :: "listing list \<Rightarrow> exn + priced_listing list" where
  "annotate [] = Inr []"
| "annotate (r # rs) =
     (case parse_price_any (or_empty (price_text r)) of
        Inl e \<Rightarrow> Inl e
      | Inr p \<Rightarrow>
          (case annotate rs of
             Inl e \<Rightarrow> Inl e
           | Inr rs' \<Rightarrow> Inr (listing.extend r \<lparr>parsed_price = p\<rparr> # rs')))"

definition try_body :: "exn + search_data \<Rightarrow> exn + listings" where
  "try_body reply =
     (case reply of
        Inl e \<Rightarrow> Inl e
      | Inr data \<Rightarrow>
          (case data_results data of
             None \<Rightarrow> Inr \<lparr>queries_used = data_queries_used data, results = None, error = None\<rparr>
           | Some rs \<Rightarrow>
               (case annotate rs of
                  Inl e \<Rightarrow> Inl e
                | Inr rs' \<Rightarrow>
                    Inr \<lparr>queries_used = data_queries_used data, results = Some rs',
                         error = None\<rparr>)))"

text \<open>
  The text of the key \<^verbatim>\<open>error\<close>, from the type name and the message of the exception
  caught.
\<close>

definition error_text :: "pystr \<Rightarrow> pystr \<Rightarrow> pystr" where
  "error_text ty msg = cps ''web_search unavailable or failed: '' @ ty @ cps '': '' @ msg"

text \<open>
  The \<open>try\<close> statement: \<^verbatim>\<open>except Exception\<close> catches an instance of \<open>Exception\<close> and returns
  the degraded object; any other exception leaves the function.
\<close>

definition search_listings :: "ident \<Rightarrow> nat \<Rightarrow> exn + search_data \<Rightarrow> exn + listings" where
  "search_listings i max_results reply =
     (let queries = build_queries i in
      case try_body reply of
        Inr data \<Rightarrow> Inr data
      | Inl (Exn ty msg) \<Rightarrow>
          Inr \<lparr>queries_used = queries, results = Some [], error = Some (error_text ty msg)\<rparr>
      | Inl (BaseExn ty msg) \<Rightarrow> Inl (BaseExn ty msg))"

subsection \<open>\<^verbatim>\<open>LuxuryPipeline.identify\<close> and \<^verbatim>\<open>LuxuryPipeline.run\<close>\<close>

text \<open>
  Each function returns the remote calls it made, in order, and its result; \<open>Inl\<close> is
  an exception that leaves the function.
\<close>

definition identify :: "remote \<Rightarrow> event list \<times> (exn + ident)" where
  "identify env = ([IdentifyCall], ident_reply env)"

definition run :: "remote \<Rightarrow> nat \<Rightarrow> event list \<times> (exn + ident \<times> listings)" where
  "run env max_results =
     (case identify env of
        (t, Inl e) \<Rightarrow> (t, Inl e)
      | (t, Inr i) \<Rightarrow>
          (case search_listings i max_results (search_reply env) of
             Inl e \<Rightarrow> (t @ [SearchCall], Inl e)
           | Inr ls \<Rightarrow> (t @ [SearchCall], Inr (i, ls))))"

subsection \<open>The endpoint \<^verbatim>\<open>predict\<close>\<close>

record upload =
  content_type :: "pystr option"
  body :: "nat list"

record similar =
  sim_id :: pystr
  sim_title :: pystr
  sim_price_text :: pystr
  sim_url :: pystr
  sim_source :: pystr

record response =
  predicted_price :: rat
  resp_currency :: string
  resp_confidence :: rat
  resp_brand :: "pystr option"
  resp_model :: "pystr option"
  resp_category :: "pystr option"
  similar_listings :: "similar list"

text \<open>
  What a request ends in: the \<open>HTTPException\<close> the endpoint raises itself (status code
  and detail), an exception that passes through it, or the response object.
\<close>

datatype outcome = Reject nat pystr | Fail exn | Respond response

text \<open>\<open>str(i)\<close> of an index.\<close>

fun py_str :: "nat \<Rightarrow> pystr" where
  "py_str n = (if n < 10 then [48 + n] else py_str (n div 10) @ [48 + n mod 10])"

definition enumerate_list :: "'a list \<Rightarrow> (nat \<times> 'a) list" where
  "enumerate_list xs = zip [0..<length xs] xs"

definition startswith :: "pystr \<Rightarrow> pystr \<Rightarrow> bool" where
  "startswith s p \<longleftrightarrow> take (length p) s = p"

definition shape :: "nat \<times> priced_listing \<Rightarrow> similar" where
  "shape ir =
     (case ir of (i, r) \<Rightarrow>
        \<lparr>sim_id = py_str i, sim_title = or_empty (title r),
         sim_price_text = or_empty (price_text r), sim_url = or_empty (url r),
         sim_source = or_empty (source r)\<rparr>)"

text \<open>
  The two conversions of the response, \<^verbatim>\<open>float(ident["estimated_market_value_usd"])\<close>
  and then \<^verbatim>\<open>float(ident["confidence"])\<close>; the first that raises ends the request.  The
  endpoint has no handler of its own: an exception of the run or of a conversion passes
  through it.
\<close>

definition convert_numbers :: "ident \<Rightarrow> exn + rat \<times> rat" where
  "convert_numbers i =
     (case to_float (estimated_market_value_usd i) of
        Inl e \<Rightarrow> Inl e
      | Inr p \<Rightarrow>
          (case to_float (confidence i) of
             Inl e \<Rightarrow> Inl e
           | Inr c \<Rightarrow> Inr (p, c)))"

definition predict :: "upload \<Rightarrow> remote \<Rightarrow> event list \<times> outcome" where
  "predict img env =
     (if or_empty (content_type img) = [] \<or>
         \<not> startswith (or_empty (content_type img)) (cps ''image/'')
      then ([], Reject 400 (cps ''Upload an image file.''))
      else
        (case run env 10 of
           (t, Inl e) \<Rightarrow> (ReadBody # t, Fail e)
         | (t, Inr (i, ls)) \<Rightarrow>
             (case convert_numbers i of
                Inl e \<Rightarrow> (ReadBody # t, Fail e)
              | Inr (p, c) \<Rightarrow>
                  (ReadBody # t,
                   Respond
                     \<lparr>predicted_price = p,
                      resp_currency = ''USD'',
                      resp_confidence = c,
                      resp_brand = brand i,
                      resp_model = model i,
                      resp_category = category i,
                      similar_listings =
                        map shape (enumerate_list (or_empty (results ls)))\<rparr>))))"

section \<open>Notions of the specification\<close>

text \<open>
  An upload is an image upload when it declares a content type and that type starts
  with the media-type prefix \<^verbatim>\<open>image/\<close>.
\<close>

definition image_upload :: "upload \<Rightarrow> bool" where
  "image_upload img \<longleftrightarrow>
     (case content_type img of None \<Rightarrow> False | Some ct \<Rightarrow> startswith ct (cps ''image/''))"

text \<open>
  A marker word occurs at the start of a text when the text begins with the word, read
  as the patterns read it (case-insensitively); \<open>strip_word\<close> gives the text after it.
  A text starts an amount when, after white space, it goes on with an ASCII digit.  A
  word is priced somewhere in a text when at some position it occurs and an amount
  follows; it merely occurs when at some position it stands, whatever follows.
\<close>

fun strip_word :: "pystr \<Rightarrow> pystr \<Rightarrow> pystr option" where
  "strip_word [] s = Some s"
| "strip_word (p # ps) [] = None"
| "strip_word (p # ps) (x # xs) = (if ci_match p x then strip_word ps xs else None)"

definition starts_amount :: "pystr \<Rightarrow> bool" where
  "starts_amount r = (case dropWhile py_isspace r of [] \<Rightarrow> False | d # _ \<Rightarrow> is_digit d)"

definition priced_here :: "pystr \<Rightarrow> pystr \<Rightarrow> bool" where
  "priced_here w t = (case strip_word w t of None \<Rightarrow> False | Some r \<Rightarrow> starts_amount r)"

fun somewhere :: "(pystr \<Rightarrow> bool) \<Rightarrow> pystr \<Rightarrow> bool" where
  "somewhere P [] = P []"
| "somewhere P (x # xs) = (P (x # xs) \<or> somewhere P xs)"

definition priced :: "pystr list \<Rightarrow> pystr \<Rightarrow> bool" where
  "priced ws s = somewhere (\<lambda>t. list_ex (\<lambda>w. priced_here w t) ws) s"

definition occurs :: "pystr \<Rightarrow> pystr \<Rightarrow> bool" where
  "occurs w s = somewhere (\<lambda>t. strip_word w t \<noteq> None) s"

text \<open>
  The currency markers of the six patterns.  \<^verbatim>\<open>US\s?\$\<close> stands for two texts, with and
  without the white space; both contain the \<^verbatim>\<open>$\<close> that is listed.
\<close>

definition marker_words :: "pystr list" where
  "marker_words =
     [cps ''USD'', cps ''US$'', cps ''$'', cps ''EUR'', [c_euro], cps ''GBP'', [c_pound],
      cps ''CAD'', cps ''C$'', cps ''AUD'', cps ''A$'', cps ''JPY'', [c_yen]]"

definition has_marker :: "pystr \<Rightarrow> bool" where
  "has_marker s = list_ex (\<lambda>w. occurs w s) marker_words"

text \<open>
  The shape of a captured amount: a digit, then digits and commas, then nothing or a
  point and exactly two digits.
\<close>

definition is_digit_comma :: "nat \<Rightarrow> bool" where
  "is_digit_comma c \<longleftrightarrow> is_digit c \<or> c = cp CHR '',''"

definition frac_ok :: "pystr \<Rightarrow> bool" where
  "frac_ok fr =
     (case fr of
        [] \<Rightarrow> True
      | [p, a, b] \<Rightarrow> p = cp CHR ''.'' \<and> is_digit a \<and> is_digit b
      | _ \<Rightarrow> False)"

definition amount_shape :: "pystr \<Rightarrow> bool" where
  "amount_shape g =
     (case g of
        [] \<Rightarrow> False
      | d # t \<Rightarrow> is_digit d \<and> frac_ok (dropWhile is_digit_comma t))"

text \<open>
  A price written the European way after the euro sign: digits, then a point, then at
  least two more digits, and on to the end only digits, points and commas, as in
  2.000,00 or 1.234.567,89.
\<close>

definition european :: "pystr \<Rightarrow> pystr \<Rightarrow> nat \<Rightarrow> nat \<Rightarrow> pystr \<Rightarrow> bool" where
  "european s g a b rest \<longleftrightarrow>
     s = c_euro # g @ cp CHR ''.'' # a # b # rest \<and> g \<noteq> [] \<and> list_all is_digit g \<and>
     is_digit a \<and> is_digit b \<and>
     list_all (\<lambda>x. is_digit x \<or> x = cp CHR ''.'' \<or> x = cp CHR '','') rest"

section \<open>Example data\<close>

text \<open>The end-to-end scenario of the specification, with two listings and with failures.\<close>

definition example_ident :: ident where
  "example_ident =
     \<lparr>brand = Some (cps '' Chanel ''), model = Some (cps ''Classic Flap''),
      category = Some (cps ''handbag''), aliases = Some [cps ''2.55'', cps ''CF''],
      confidence = FloatNum 0.82,
      attributes = \<lparr>primary_color = cps ''black'', material = cps ''lambskin'',
                     metal_finish = cps ''gold'', closure = cps ''turn-lock'',
                     notable_markings = cps ''not visible''\<rparr>,
      typical_price_range_usd = \<lparr>low = IntNum 4000, high = IntNum 6000\<rparr>,
      estimated_market_value_usd = IntNum 4800,
      suggested_queries = Some [cps ''Chanel Classic Flap price'', []],
      rationale = cps ''quilted flap bag''\<rparr>"

definition example_listing :: "pystr \<Rightarrow> listing" where
  "example_listing p =
     \<lparr>title = Some (cps ''Chanel Classic Flap Medium''),
      url = Some (cps ''https://example.com/1''),
      source = Some (cps ''example.com''), price_text = Some p, date_text = Some [],
      listing_notes = Some []\<rparr>"

definition example_error :: exn where
  "example_error = Exn (cps ''TimeoutError'') (cps ''timed out'')"

definition example_remote :: remote where
  "example_remote =
     \<lparr>ident_reply = Inr example_ident,
      search_reply =
        Inr \<lparr>data_queries_used = [cps ''Chanel Classic Flap price''],
             data_results = Some [example_listing (cps ''$4,800.00''),
                                  example_listing (cps ''call for price'')]\<rparr>\<rparr>"


definition search_down :: remote where
  "search_down = \<lparr>ident_reply = Inr example_ident, search_reply = Inl example_error\<rparr>"







definition text_upload :: upload where
  "text_upload = \<lparr>content_type = Some (cps ''text/plain''), body = [104, 105]\<rparr>"

section \<open>The matcher\<close>

text \<open>
  The equation of \<open>Star\<close> rewrites its own right-hand side; it is used through the two
  equations for a starred character set below.
\<close>

declare rmatch.simps(5) [simp del]

lemma star_in_Nil: "rmatch (Star (In it)) [] c = [([], c)]"
  by (simp add: rmatch.simps(5))

lemma star_in_Cons:
  "rmatch (Star (In it)) (x # xs) c =
     (if in_set it x then rmatch (Star (In it)) xs c @ [(x # xs, c)] else [(x # xs, c)])"
  by (simp add: rmatch.simps(5))

lemma mem_Lit:
  "(s', c') \<in> set (rmatch (Lit p) s c) \<longleftrightarrow> (\<exists>x. s = x # s' \<and> ci_match p x) \<and> c' = c"
  by (cases s) auto

lemma mem_In:
  "(s', c') \<in> set (rmatch (In it) s c) \<longleftrightarrow> (\<exists>x. s = x # s' \<and> in_set it x) \<and> c' = c"
  by (cases s) auto

lemma mem_Seq:
  "(s', c') \<in> set (rmatch (Seq a b) s c) \<longleftrightarrow>
     (\<exists>s1 c1. (s1, c1) \<in> set (rmatch a s c) \<and> (s', c') \<in> set (rmatch b s1 c1))"
  by auto

lemma mem_Alt:
  "(s', c') \<in> set (rmatch (Alt a b) s c) \<longleftrightarrow>
     (s', c') \<in> set (rmatch a s c) \<or> (s', c') \<in> set (rmatch b s c)"
  by simp

lemma mem_Opt:
  "(s', c') \<in> set (rmatch (Opt a) s c) \<longleftrightarrow>
     (s', c') \<in> set (rmatch a s c) \<or> (s' = s \<and> c' = c)"
  by auto

lemma mem_Grp:
  "(s', c') \<in> set (rmatch (Grp k a) s c) \<longleftrightarrow>
     (\<exists>c1. (s', c1) \<in> set (rmatch a s c) \<and> c' = (k, take (length s - length s') s) # c1)"
  by auto

lemma mem_Star_In:
  "(s', c') \<in> set (rmatch (Star (In it)) s c) \<longleftrightarrow>
     c' = c \<and> (\<exists>u. s = u @ s' \<and> list_all (in_set it) u)"
proof (induction s)
  case Nil
  show ?case by (auto simp: star_in_Nil)
next
  case (Cons x xs)
  show ?case
  proof (cases "in_set it x")
    case True
    have "(\<exists>u. x # xs = u @ s' \<and> list_all (in_set it) u) \<longleftrightarrow>
          s' = x # xs \<or> (\<exists>u. xs = u @ s' \<and> list_all (in_set it) u)"
      using True by (auto simp: Cons_eq_append_conv)
    then show ?thesis using True Cons by (auto simp: star_in_Cons)
  next
    case False
    have "(\<exists>u. x # xs = u @ s' \<and> list_all (in_set it) u) \<longleftrightarrow> s' = x # xs"
      using False by (auto simp: Cons_eq_append_conv)
    then show ?thesis using False by (auto simp: star_in_Cons)
  qed
qed

lemma star_in_hd:
  "\<exists>tl. rmatch (Star (In it)) s c = (dropWhile (in_set it) s, c) # tl"
  by (induction s) (auto simp: star_in_Nil star_in_Cons)

lemma search_None_iff:
  "search r s = None \<longleftrightarrow> (\<forall>pre t. s = pre @ t \<longrightarrow> rmatch r t [] = [])"
proof (induction s)
  case Nil
  show ?case by (auto split: list.splits)
next
  case (Cons x xs)
  show ?case
  proof (cases "rmatch r (x # xs) []")
    case Nil
    have "(\<forall>pre t. x # xs = pre @ t \<longrightarrow> rmatch r t [] = []) \<longleftrightarrow>
          (\<forall>pre t. xs = pre @ t \<longrightarrow> rmatch r t [] = [])"
      using Nil by (auto simp: Cons_eq_append_conv)
    then show ?thesis using Nil Cons by simp
  next
    case (Cons a list)
    then have "\<not> (\<forall>pre t. x # xs = pre @ t \<longrightarrow> rmatch r t [] = [])"
      by (metis append_Nil list.distinct(1))
    then show ?thesis using Cons by (auto split: prod.splits)
  qed
qed

lemma search_Some_mem:
  "search r s = Some m \<Longrightarrow> \<exists>pre t s'. s = pre @ t \<and> (s', m) \<in> set (rmatch r t [])"
proof (induction s)
  case Nil
  then show ?case by (auto split: list.splits)
next
  case (Cons x xs)
  show ?case
  proof (cases "rmatch r (x # xs) []")
    case Nil
    with Cons.prems have "search r xs = Some m" by simp
    from Cons.IH [OF this] obtain pre t s' where "xs = pre @ t" "(s', m) \<in> set (rmatch r t [])"
      by blast
    then have "x # xs = (x # pre) @ t \<and> (s', m) \<in> set (rmatch r t [])" by simp
    then show ?thesis by blast
  next
    case (Cons a list)
    with Cons.prems have "snd a = m" by (auto split: prod.splits)
    then have "x # xs = [] @ (x # xs) \<and> (fst a, m) \<in> set (rmatch r (x # xs) [])"
      using Cons by (cases a) auto
    then show ?thesis by blast
  qed
qed

lemma search_first:
  assumes "rmatch r t [] = (s', m) # rest"
    and "\<forall>p q. pre = p @ q \<and> q \<noteq> [] \<longrightarrow> rmatch r (q @ t) [] = []"
  shows "search r (pre @ t) = Some m"
  using assms
proof (induction pre)
  case Nil
  then show ?case by (cases t) auto
next
  case (Cons x xs)
  have "rmatch r ((x # xs) @ t) [] = []"
    using Cons.prems(2) by (metis append_Nil list.distinct(1))
  moreover have "\<forall>p q. xs = p @ q \<and> q \<noteq> [] \<longrightarrow> rmatch r (q @ t) [] = []"
    using Cons.prems(2) by (metis append_Cons)
  ultimately show ?case using Cons by simp
qed

lemma somewhere_iff: "somewhere P s \<longleftrightarrow> (\<exists>pre t. s = pre @ t \<and> P t)"
proof (induction s)
  case Nil
  show ?case by simp
next
  case (Cons x xs)
  have "(\<exists>pre t. x # xs = pre @ t \<and> P t) \<longleftrightarrow> P (x # xs) \<or> (\<exists>pre t. xs = pre @ t \<and> P t)"
    by (auto simp: Cons_eq_append_conv)
  then show ?case using Cons by simp
qed

lemma in_set_digit [simp]: "in_set digit x \<longleftrightarrow> is_digit x"
  by (simp add: in_set_def digit_def is_digit_def cp_def)

lemma in_set_digit_comma [simp]: "in_set digit_comma x \<longleftrightarrow> is_digit_comma x"
  by (auto simp: in_set_def digit_comma_def is_digit_comma_def is_digit_def cp_def)

lemma in_set_space [simp]: "in_set [CSpace] x \<longleftrightarrow> py_isspace x"
  by (simp add: in_set_def)

lemma ci_match_dot [simp]: "ci_match (cp CHR ''.'') x \<longleftrightarrow> x = cp CHR ''.''"
  by (auto simp: ci_match_def ascii_lower_def cp_def split: if_splits)

lemma ci_match_dollar [simp]: "ci_match (cp CHR ''$'') x \<longleftrightarrow> x = cp CHR ''$''"
  by (auto simp: ci_match_def ascii_lower_def cp_def split: if_splits)

lemma space_not_digit: "py_isspace x \<Longrightarrow> \<not> is_digit x"
  by (auto simp: py_isspace_def is_digit_def)

lemma rmatch_lit:
  "rmatch (lit ch) s c = (case strip_word [cp ch] s of None \<Rightarrow> [] | Some r \<Rightarrow> [(r, c)])"
  by (cases s) (auto simp: lit_def)

lemma rmatch_word2:
  "rmatch (word2 a b) s c =
     (case strip_word [cp a, cp b] s of None \<Rightarrow> [] | Some r \<Rightarrow> [(r, c)])"
proof (cases s)
  case Nil then show ?thesis by (simp add: word2_def lit_def)
next
  case (Cons x xs)
  then show ?thesis by (cases xs) (auto simp: word2_def lit_def)
qed

lemma rmatch_word3:
  "rmatch (word3 a b d) s c =
     (case strip_word [cp a, cp b, cp d] s of None \<Rightarrow> [] | Some r \<Rightarrow> [(r, c)])"
proof (cases s)
  case Nil then show ?thesis by (simp add: word3_def lit_def)
next
  case (Cons x xs)
  show ?thesis
  proof (cases xs)
    case Nil then show ?thesis using Cons by (simp add: word3_def lit_def)
  next
    case (Cons y ys)
    then show ?thesis using \<open>s = x # xs\<close> by (cases ys) (auto simp: word3_def lit_def)
  qed
qed

lemma frac_ok_iff:
  "frac_ok fr \<longleftrightarrow>
     fr = [] \<or> (\<exists>a b. fr = [cp CHR ''.'', a, b] \<and> is_digit a \<and> is_digit b)"
  by (auto simp: frac_ok_def split: list.splits)

lemma mem_frac:
  "(s', c') \<in> set (rmatch (Seq (lit CHR ''.'') (Seq (In digit) (In digit))) r c) \<longleftrightarrow>
     c' = c \<and> (\<exists>a b. r = cp CHR ''.'' # a # b # s' \<and> is_digit a \<and> is_digit b)"
  unfolding mem_Seq lit_def mem_Lit mem_In by auto

lemma mem_opt_frac:
  "(s', c') \<in> set (rmatch (Opt (Seq (lit CHR ''.'') (Seq (In digit) (In digit)))) r c) \<longleftrightarrow>
     c' = c \<and> (\<exists>fr. r = fr @ s' \<and> frac_ok fr)"
  unfolding mem_Opt mem_frac frac_ok_iff by auto

lemma mem_amount_frac:
  "(s', c') \<in> set (rmatch amount_frac u c) \<longleftrightarrow>
     c' = c \<and> (\<exists>d ds fr. u = d # ds @ fr @ s' \<and> is_digit d \<and>
                 list_all is_digit_comma ds \<and> frac_ok fr)"
  unfolding amount_frac_def mem_Seq mem_opt_frac mem_Star_In mem_In
  by (auto simp: list_all_iff)

lemma mem_amount_int:
  "(s', c') \<in> set (rmatch amount_int u c) \<longleftrightarrow>
     c' = c \<and> (\<exists>d ds. u = d # ds @ s' \<and> is_digit d \<and> list_all is_digit_comma ds)"
  unfolding amount_int_def mem_Seq mem_Star_In mem_In
  by (auto simp: list_all_iff)

lemma dot_not_digit_comma [simp]: "\<not> is_digit_comma (cp CHR ''.'')"
  by (simp add: is_digit_comma_def is_digit_def cp_def)

lemma dropWhile_run_frac:
  "list_all is_digit_comma ds \<Longrightarrow> frac_ok fr \<Longrightarrow> dropWhile is_digit_comma (ds @ fr) = fr"
  by (induction ds) (auto simp: frac_ok_iff)

lemma amount_shapeI:
  "is_digit d \<Longrightarrow> list_all is_digit_comma ds \<Longrightarrow> frac_ok fr \<Longrightarrow> amount_shape (d # ds @ fr)"
  by (simp add: amount_shape_def dropWhile_run_frac)

lemma dropWhile_spaces_digit:
  "list_all py_isspace ws \<Longrightarrow> is_digit d \<Longrightarrow> dropWhile py_isspace (ws @ d # r) = d # r"
  by (induction ws) (auto dest: space_not_digit)

lemma ne_mem: "xs \<noteq> [] \<longleftrightarrow> (\<exists>a b. (a, b) \<in> set xs)"
  by (cases xs) auto

lemma mem_tail_frac:
  "(s', c') \<in> set (rmatch (Seq spaces (Grp 2 amount_frac)) r c) \<longleftrightarrow>
     (\<exists>ws d ds fr. r = ws @ d # ds @ fr @ s' \<and> list_all py_isspace ws \<and> is_digit d \<and>
        list_all is_digit_comma ds \<and> frac_ok fr \<and> c' = (2, d # ds @ fr) # c)"
  (is "?L \<longleftrightarrow> ?R")
proof
  assume ?L
  then obtain s1 c1 where a: "(s1, c1) \<in> set (rmatch spaces r c)"
    and b: "(s', c') \<in> set (rmatch (Grp 2 amount_frac) s1 c1)"
    unfolding mem_Seq by blast
  from a obtain ws where ws: "c1 = c" "r = ws @ s1" "list_all py_isspace ws"
    unfolding spaces_def mem_Star_In by (auto simp: list_all_iff)
  from b obtain c2 where c2: "(s', c2) \<in> set (rmatch amount_frac s1 c1)"
    "c' = (2, take (length s1 - length s') s1) # c2"
    unfolding mem_Grp by blast
  from c2(1) obtain d ds fr where d: "c2 = c1" "s1 = d # ds @ fr @ s'" "is_digit d"
    "list_all is_digit_comma ds" "frac_ok fr"
    unfolding mem_amount_frac by blast
  have "take (length s1 - length s') s1 = d # ds @ fr"
    using d(2) by simp
  then show ?R
    using ws c2(2) d by auto
next
  assume ?R
  then obtain ws d ds fr where h: "r = ws @ d # ds @ fr @ s'" "list_all py_isspace ws" "is_digit d"
    "list_all is_digit_comma ds" "frac_ok fr" "c' = (2, d # ds @ fr) # c"
    by blast
  let ?s1 = "d # ds @ fr @ s'"
  have a: "(?s1, c) \<in> set (rmatch spaces r c)"
    unfolding spaces_def mem_Star_In using h(1,2) by (auto simp: list_all_iff)
  have "(s', c) \<in> set (rmatch amount_frac ?s1 c)"
    unfolding mem_amount_frac using h by blast
  moreover have "take (length ?s1 - length s') ?s1 = d # ds @ fr"
    by simp
  ultimately have "(s', c') \<in> set (rmatch (Grp 2 amount_frac) ?s1 c)"
    unfolding mem_Grp using h by auto
  with a show ?L
    unfolding mem_Seq by blast
qed

lemma mem_tail_int:
  "(s', c') \<in> set (rmatch (Seq spaces (Grp 2 amount_int)) r c) \<longleftrightarrow>
     (\<exists>ws d ds. r = ws @ d # ds @ s' \<and> list_all py_isspace ws \<and> is_digit d \<and>
        list_all is_digit_comma ds \<and> c' = (2, d # ds) # c)"
  (is "?L \<longleftrightarrow> ?R")
proof
  assume ?L
  then obtain s1 c1 where a: "(s1, c1) \<in> set (rmatch spaces r c)"
    and b: "(s', c') \<in> set (rmatch (Grp 2 amount_int) s1 c1)"
    unfolding mem_Seq by blast
  from a obtain ws where ws: "c1 = c" "r = ws @ s1" "list_all py_isspace ws"
    unfolding spaces_def mem_Star_In by (auto simp: list_all_iff)
  from b obtain c2 where c2: "(s', c2) \<in> set (rmatch amount_int s1 c1)"
    "c' = (2, take (length s1 - length s') s1) # c2"
    unfolding mem_Grp by blast
  from c2(1) obtain d ds where d: "c2 = c1" "s1 = d # ds @ s'" "is_digit d"
    "list_all is_digit_comma ds"
    unfolding mem_amount_int by blast
  have "take (length s1 - length s') s1 = d # ds"
    using d(2) by simp
  then show ?R
    using ws c2(2) d by auto
next
  assume ?R
  then obtain ws d ds where h: "r = ws @ d # ds @ s'" "list_all py_isspace ws" "is_digit d"
    "list_all is_digit_comma ds" "c' = (2, d # ds) # c"
    by blast
  let ?s1 = "d # ds @ s'"
  have a: "(?s1, c) \<in> set (rmatch spaces r c)"
    unfolding spaces_def mem_Star_In using h(1,2) by (auto simp: list_all_iff)
  have "(s', c) \<in> set (rmatch amount_int ?s1 c)"
    unfolding mem_amount_int using h by blast
  moreover have "take (length ?s1 - length s') ?s1 = d # ds"
    by simp
  ultimately have "(s', c') \<in> set (rmatch (Grp 2 amount_int) ?s1 c)"
    unfolding mem_Grp using h by auto
  with a show ?L
    unfolding mem_Seq by blast
qed

lemma starts_amountI:
  "list_all py_isspace ws \<Longrightarrow> is_digit d \<Longrightarrow> starts_amount (ws @ d # r)"
  by (simp add: starts_amount_def dropWhile_spaces_digit)

lemma starts_amountD:
  assumes "starts_amount r"
  shows "\<exists>ws d r'. r = ws @ d # r' \<and> list_all py_isspace ws \<and> is_digit d"
proof -
  from assms obtain d r' where d: "dropWhile py_isspace r = d # r'" "is_digit d"
    by (auto simp: starts_amount_def split: list.splits)
  have "r = takeWhile py_isspace r @ d # r'"
    using d(1) by (metis takeWhile_dropWhile_id)
  moreover have "list_all py_isspace (takeWhile py_isspace r)"
    by (simp add: list_all_iff) (meson set_takeWhileD)
  ultimately show ?thesis using d(2) by blast
qed

lemma tail_frac_nonempty:
  "rmatch (Seq spaces (Grp 2 amount_frac)) r c \<noteq> [] \<longleftrightarrow> starts_amount r"
proof
  assume "rmatch (Seq spaces (Grp 2 amount_frac)) r c \<noteq> []"
  then obtain s' c' where "(s', c') \<in> set (rmatch (Seq spaces (Grp 2 amount_frac)) r c)"
    unfolding ne_mem by blast
  then show "starts_amount r"
    unfolding mem_tail_frac by (auto intro: starts_amountI)
next
  assume "starts_amount r"
  from starts_amountD [OF this] obtain ws d r' where
    r: "r = ws @ d # r'" "list_all py_isspace ws" "is_digit d" by blast
  have "(r', (2, d # [] @ []) # c) \<in> set (rmatch (Seq spaces (Grp 2 amount_frac)) r c)"
    unfolding mem_tail_frac using r
    by (intro exI [of _ ws] exI [of _ d] exI [of _ "[]"]) (simp add: frac_ok_iff)
  then show "rmatch (Seq spaces (Grp 2 amount_frac)) r c \<noteq> []" unfolding ne_mem by blast
qed

lemma tail_int_nonempty:
  "rmatch (Seq spaces (Grp 2 amount_int)) r c \<noteq> [] \<longleftrightarrow> starts_amount r"
proof
  assume "rmatch (Seq spaces (Grp 2 amount_int)) r c \<noteq> []"
  then obtain s' c' where "(s', c') \<in> set (rmatch (Seq spaces (Grp 2 amount_int)) r c)"
    unfolding ne_mem by blast
  then show "starts_amount r"
    unfolding mem_tail_int by (auto intro: starts_amountI)
next
  assume "starts_amount r"
  from starts_amountD [OF this] obtain ws d r' where
    r: "r = ws @ d # r'" "list_all py_isspace ws" "is_digit d" by blast
  have "(r', (2, d # []) # c) \<in> set (rmatch (Seq spaces (Grp 2 amount_int)) r c)"
    unfolding mem_tail_int using r
    by (intro exI [of _ ws] exI [of _ d] exI [of _ "[]"]) simp
  then show "rmatch (Seq spaces (Grp 2 amount_int)) r c \<noteq> []" unfolding ne_mem by blast
qed

lemma tail_frac_group:
  "(s', m) \<in> set (rmatch (Seq spaces (Grp 2 amount_frac)) r c) \<Longrightarrow>
     \<exists>g. group m 2 = Some g \<and> amount_shape g"
  unfolding mem_tail_frac by (auto simp: group_def intro: amount_shapeI)

lemma tail_int_group:
  "(s', m) \<in> set (rmatch (Seq spaces (Grp 2 amount_int)) r c) \<Longrightarrow>
     \<exists>g. group m 2 = Some g \<and> amount_shape g"
  unfolding mem_tail_int
  using amount_shapeI [where fr = "[]"] by (auto simp: group_def frac_ok_iff)

lemma rmatch_Lit_word:
  "rmatch (Lit p) s c = (case strip_word [p] s of None \<Rightarrow> [] | Some r \<Rightarrow> [(r, c)])"
  by (cases s) auto

lemma mem_word_case:
  "(s1, c1) \<in> set (case strip_word w t of None \<Rightarrow> [] | Some r \<Rightarrow> [(r, c)]) \<longleftrightarrow>
     strip_word w t = Some s1 \<and> c1 = c"
  by (auto split: option.splits)

lemma strip_word_append:
  "strip_word w t = Some r \<Longrightarrow> \<exists>u. t = u @ r \<and> length u = length w"
proof (induction w t rule: strip_word.induct)
  case (1 s)
  then show ?case by simp
next
  case (2 p ps)
  then show ?case by simp
next
  case (3 p ps x xs)
  then have "strip_word ps xs = Some r" by (simp split: if_splits)
  from 3(1) [OF _ this] 3(2) obtain u where "xs = u @ r" "length u = length ps"
    by (auto split: if_splits)
  then have "x # xs = (x # u) @ r \<and> length (x # u) = length (p # ps)" by simp
  then show ?case by blast
qed

lemma pat_nonempty_frac:
  "rmatch (Seq (Grp 1 M) (Seq spaces (Grp 2 amount_frac))) t c \<noteq> [] \<longleftrightarrow>
     (\<exists>s1 c1. (s1, c1) \<in> set (rmatch M t c) \<and> starts_amount s1)"
  (is "?L \<longleftrightarrow> ?R")
proof
  assume ?L
  then obtain s' c' where "(s', c') \<in> set (rmatch (Seq (Grp 1 M) (Seq spaces (Grp 2 amount_frac))) t c)"
    unfolding ne_mem by blast
  then obtain s1 c1 c2 where "(s1, c1) \<in> set (rmatch M t c)"
    "(s', c') \<in> set (rmatch (Seq spaces (Grp 2 amount_frac)) s1 c2)"
    unfolding mem_Seq [of _ _ "Grp 1 M"] mem_Grp by blast
  then show ?R
    using tail_frac_nonempty [of s1 c2] unfolding ne_mem by blast
next
  assume ?R
  then obtain s1 c1 where a: "(s1, c1) \<in> set (rmatch M t c)" and b: "starts_amount s1"
    by blast
  let ?c2 = "(1, take (length t - length s1) t) # c1"
  have "(s1, ?c2) \<in> set (rmatch (Grp 1 M) t c)"
    unfolding mem_Grp using a by blast
  moreover obtain s' c' where "(s', c') \<in> set (rmatch (Seq spaces (Grp 2 amount_frac)) s1 ?c2)"
    using b tail_frac_nonempty [of s1 ?c2] unfolding ne_mem by blast
  ultimately have "(s', c') \<in> set (rmatch (Seq (Grp 1 M) (Seq spaces (Grp 2 amount_frac))) t c)"
    unfolding mem_Seq [of _ _ "Grp 1 M"] by blast
  then show ?L unfolding ne_mem by blast
qed

lemma pat_nonempty_int:
  "rmatch (Seq (Grp 1 M) (Seq spaces (Grp 2 amount_int))) t c \<noteq> [] \<longleftrightarrow>
     (\<exists>s1 c1. (s1, c1) \<in> set (rmatch M t c) \<and> starts_amount s1)"
  (is "?L \<longleftrightarrow> ?R")
proof
  assume ?L
  then obtain s' c' where "(s', c') \<in> set (rmatch (Seq (Grp 1 M) (Seq spaces (Grp 2 amount_int))) t c)"
    unfolding ne_mem by blast
  then obtain s1 c1 c2 where "(s1, c1) \<in> set (rmatch M t c)"
    "(s', c') \<in> set (rmatch (Seq spaces (Grp 2 amount_int)) s1 c2)"
    unfolding mem_Seq [of _ _ "Grp 1 M"] mem_Grp by blast
  then show ?R
    using tail_int_nonempty [of s1 c2] unfolding ne_mem by blast
next
  assume ?R
  then obtain s1 c1 where a: "(s1, c1) \<in> set (rmatch M t c)" and b: "starts_amount s1"
    by blast
  let ?c2 = "(1, take (length t - length s1) t) # c1"
  have "(s1, ?c2) \<in> set (rmatch (Grp 1 M) t c)"
    unfolding mem_Grp using a by blast
  moreover obtain s' c' where "(s', c') \<in> set (rmatch (Seq spaces (Grp 2 amount_int)) s1 ?c2)"
    using b tail_int_nonempty [of s1 ?c2] unfolding ne_mem by blast
  ultimately have "(s', c') \<in> set (rmatch (Seq (Grp 1 M) (Seq spaces (Grp 2 amount_int))) t c)"
    unfolding mem_Seq [of _ _ "Grp 1 M"] by blast
  then show ?L unfolding ne_mem by blast
qed

lemma pat_group_frac:
  assumes "(s', m) \<in> set (rmatch (Seq (Grp 1 M) (Seq spaces (Grp 2 amount_frac))) t c)"
  shows "\<exists>g. group m 2 = Some g \<and> amount_shape g"
proof -
  from assms obtain s1 c2 where
    "(s', m) \<in> set (rmatch (Seq spaces (Grp 2 amount_frac)) s1 c2)"
    unfolding mem_Seq [of _ _ "Grp 1 M"] by blast
  then show ?thesis by (rule tail_frac_group)
qed

lemma pat_group_int:
  assumes "(s', m) \<in> set (rmatch (Seq (Grp 1 M) (Seq spaces (Grp 2 amount_int))) t c)"
  shows "\<exists>g. group m 2 = Some g \<and> amount_shape g"
proof -
  from assms obtain s1 c2 where
    "(s', m) \<in> set (rmatch (Seq spaces (Grp 2 amount_int)) s1 c2)"
    unfolding mem_Seq [of _ _ "Grp 1 M"] by blast
  then show ?thesis by (rule tail_int_group)
qed

lemma search_ne_iff:
  "search r s \<noteq> None \<longleftrightarrow> somewhere (\<lambda>t. rmatch r t [] \<noteq> []) s"
  unfolding search_None_iff somewhere_iff by blast

lemma two_words_here_frac:
  assumes A: "\<And>t c. rmatch A t c = (case strip_word wa t of None \<Rightarrow> [] | Some r \<Rightarrow> [(r, c)])"
    and B: "\<And>t c. rmatch B t c = (case strip_word wb t of None \<Rightarrow> [] | Some r \<Rightarrow> [(r, c)])"
  shows "rmatch (Seq (Grp 1 (Alt A B)) (Seq spaces (Grp 2 amount_frac))) t c \<noteq> [] \<longleftrightarrow>
           priced_here wa t \<or> priced_here wb t"
  unfolding pat_nonempty_frac mem_Alt A B mem_word_case priced_here_def
  by (auto split: option.splits)

lemma two_words_here_int:
  assumes A: "\<And>t c. rmatch A t c = (case strip_word wa t of None \<Rightarrow> [] | Some r \<Rightarrow> [(r, c)])"
    and B: "\<And>t c. rmatch B t c = (case strip_word wb t of None \<Rightarrow> [] | Some r \<Rightarrow> [(r, c)])"
  shows "rmatch (Seq (Grp 1 (Alt A B)) (Seq spaces (Grp 2 amount_int))) t c \<noteq> [] \<longleftrightarrow>
           priced_here wa t \<or> priced_here wb t"
  unfolding pat_nonempty_int mem_Alt A B mem_word_case priced_here_def
  by (auto split: option.splits)

lemma priced_two:
  "priced [wa, wb] s \<longleftrightarrow> somewhere (\<lambda>t. priced_here wa t \<or> priced_here wb t) s"
  by (simp add: priced_def)

lemma eur_search: "search pat_eur s \<noteq> None \<longleftrightarrow> priced [cps ''EUR'', [c_euro]] s"
  unfolding search_ne_iff priced_two pat_eur_def two_words_here_frac [OF rmatch_word3 rmatch_Lit_word]
  by (simp add: cps_def)

lemma gbp_search: "search pat_gbp s \<noteq> None \<longleftrightarrow> priced [cps ''GBP'', [c_pound]] s"
  unfolding search_ne_iff priced_two pat_gbp_def two_words_here_frac [OF rmatch_word3 rmatch_Lit_word]
  by (simp add: cps_def)

lemma cad_search: "search pat_cad s \<noteq> None \<longleftrightarrow> priced [cps ''CAD'', cps ''C$''] s"
  unfolding search_ne_iff priced_two pat_cad_def two_words_here_frac [OF rmatch_word3 rmatch_word2]
  by (simp add: cps_def)

lemma aud_search: "search pat_aud s \<noteq> None \<longleftrightarrow> priced [cps ''AUD'', cps ''A$''] s"
  unfolding search_ne_iff priced_two pat_aud_def two_words_here_frac [OF rmatch_word3 rmatch_word2]
  by (simp add: cps_def)

lemma jpy_search: "search pat_jpy s \<noteq> None \<longleftrightarrow> priced [cps ''JPY'', [c_yen]] s"
  unfolding search_ne_iff priced_two pat_jpy_def two_words_here_int [OF rmatch_word3 rmatch_Lit_word]
  by (simp add: cps_def)

lemma mem_us_dollar:
  "(s1, c1) \<in> set (rmatch (Seq (word2 CHR ''U'' CHR ''S'')
                        (Seq (Opt (In [CSpace])) (lit CHR ''$''))) t c) \<longleftrightarrow>
     c1 = c \<and> (\<exists>r. strip_word (cps ''US'') t = Some r \<and>
        (strip_word (cps ''$'') r = Some s1 \<or>
         (\<exists>sp r'. r = sp # r' \<and> py_isspace sp \<and> strip_word (cps ''$'') r' = Some s1)))"
  unfolding mem_Seq rmatch_word2 rmatch_lit mem_word_case mem_Opt mem_In
  by (auto simp: cps_def)

lemma priced_here_iff:
  "priced_here w t \<longleftrightarrow> (\<exists>r. strip_word w t = Some r \<and> starts_amount r)"
  by (simp add: priced_here_def split: option.splits)

lemma usd_here:
  "rmatch pat_usd t [] \<noteq> [] \<longleftrightarrow>
     priced_here (cps ''USD'') t \<or>
     (\<exists>r. strip_word (cps ''US'') t = Some r \<and>
        (priced_here (cps ''$'') r \<or>
         (\<exists>sp r'. r = sp # r' \<and> py_isspace sp \<and> priced_here (cps ''$'') r'))) \<or>
     priced_here (cps ''$'') t"
  unfolding pat_usd_def pat_nonempty_frac mem_Alt mem_us_dollar rmatch_word3 rmatch_lit
    mem_word_case priced_here_iff cps_def list.map
  by blast

lemma usd_search: "search pat_usd s \<noteq> None \<longleftrightarrow> priced [cps ''USD'', cps ''$''] s"
proof
  assume "search pat_usd s \<noteq> None"
  then obtain pre t where t: "s = pre @ t" "rmatch pat_usd t [] \<noteq> []"
    unfolding search_ne_iff somewhere_iff by blast
  from t(2) consider
      (a) "priced_here (cps ''USD'') t \<or> priced_here (cps ''$'') t"
    | (b) r where "strip_word (cps ''US'') t = Some r" "priced_here (cps ''$'') r"
    | (c) r sp r' where "strip_word (cps ''US'') t = Some r" "r = sp # r'"
        "priced_here (cps ''$'') r'"
    unfolding usd_here by blast
  then show "priced [cps ''USD'', cps ''$''] s"
  proof cases
    case a
    then show ?thesis unfolding priced_two somewhere_iff using t(1) by blast
  next
    case b
    from strip_word_append [OF b(1)] obtain u where "t = u @ r" by blast
    then have "s = (pre @ u) @ r" using t(1) by simp
    then show ?thesis unfolding priced_two somewhere_iff using b(2) by blast
  next
    case c
    from strip_word_append [OF c(1)] obtain u where "t = u @ r" by blast
    then have "s = (pre @ u @ [sp]) @ r'" using t(1) c(2) by simp
    then show ?thesis unfolding priced_two somewhere_iff using c(3) by blast
  qed
next
  assume "priced [cps ''USD'', cps ''$''] s"
  then obtain pre t where "s = pre @ t" "priced_here (cps ''USD'') t \<or> priced_here (cps ''$'') t"
    unfolding priced_two somewhere_iff by blast
  then show "search pat_usd s \<noteq> None"
    unfolding search_ne_iff somewhere_iff usd_here by blast
qed

lemma comma_not_digit [simp]: "\<not> is_digit (cp CHR '','')"
  by (simp add: is_digit_def cp_def)

lemma dot_not_digit [simp]: "\<not> is_digit (cp CHR ''.'')"
  by (simp add: is_digit_def cp_def)

lemma dot_not_comma [simp]: "cp CHR ''.'' \<noteq> cp CHR '',''"
  by (simp add: cp_def)

lemma filter_digit_comma:
  "list_all is_digit_comma ds \<Longrightarrow> list_all is_digit (filter (\<lambda>x. x \<noteq> cp CHR '','') ds)"
  by (induction ds) (auto simp: is_digit_comma_def)

lemma takeWhile_digits: "list_all is_digit ds \<Longrightarrow> (fr = [] \<or> \<not> is_digit (hd fr)) \<Longrightarrow>
    takeWhile is_digit (ds @ fr) = ds \<and> dropWhile is_digit (ds @ fr) = fr"
  by (induction ds) (cases fr; auto)+

lemma amount_shapeD:
  assumes "amount_shape g"
  shows "\<exists>d ds fr. g = d # ds @ fr \<and> is_digit d \<and> list_all is_digit_comma ds \<and> frac_ok fr"
proof -
  from assms obtain d t where g: "g = d # t" "is_digit d"
    by (auto simp: amount_shape_def split: list.splits)
  have fr: "frac_ok (dropWhile is_digit_comma t)"
    using assms g by (simp add: amount_shape_def)
  have "t = takeWhile is_digit_comma t @ dropWhile is_digit_comma t" by simp
  moreover have "list_all is_digit_comma (takeWhile is_digit_comma t)"
    by (simp add: list_all_iff) (meson set_takeWhileD)
  ultimately show ?thesis using g fr by blast
qed

lemma py_float_amount:
  assumes "is_digit d" "list_all is_digit_comma ds" "frac_ok fr"
  shows "py_float (remove_commas (d # ds @ fr)) =
           Some (of_nat (dec_value (d # filter (\<lambda>x. x \<noteq> cp CHR '','') ds @ tl fr))
                 / 10 ^ length (tl fr))"
proof -
  let ?ds = "filter (\<lambda>x. x \<noteq> cp CHR '','') ds"
  have fr: "filter (\<lambda>x. x \<noteq> cp CHR '','') fr = fr"
    using assms(3) by (auto simp: frac_ok_iff)
  have rc: "remove_commas (d # ds @ fr) = (d # ?ds) @ fr"
    using assms(1) fr by (auto simp: remove_commas_def)
  have dig: "list_all is_digit (d # ?ds)"
    using assms(1) filter_digit_comma [OF assms(2)] by simp
  have "fr = [] \<or> \<not> is_digit (hd fr)"
    using assms(3) by (auto simp: frac_ok_iff)
  from takeWhile_digits [OF dig this]
  have tw: "takeWhile is_digit (remove_commas (d # ds @ fr)) = d # ?ds"
    and dw: "dropWhile is_digit (remove_commas (d # ds @ fr)) = fr"
    unfolding rc by simp_all
  from assms(3) consider "fr = []" | a b where "fr = [cp CHR ''.'', a, b]" "is_digit a" "is_digit b"
    unfolding frac_ok_iff by blast
  then show ?thesis
  proof cases
    case 1
    then show ?thesis unfolding py_float_def tw dw Let_def by simp
  next
    case 2
    then show ?thesis unfolding py_float_def tw dw Let_def by simp
  qed
qed

lemma py_float_shape:
  assumes "amount_shape g"
  shows "\<exists>v. py_float (remove_commas g) = Some v"
proof -
  from amount_shapeD [OF assms] obtain d ds fr where
    g: "g = d # ds @ fr" "is_digit d" "list_all is_digit_comma ds" "frac_ok fr" by blast
  show ?thesis
    unfolding g(1) py_float_amount [OF g(2,3,4)] by blast
qed

section \<open>Evaluation\<close>

lemmas pattern_defs =
  pat_usd_def pat_eur_def pat_gbp_def pat_cad_def pat_aud_def pat_jpy_def
  word3_def word2_def lit_def spaces_def amount_frac_def amount_int_def
  digit_def digit_comma_def c_euro_def c_pound_def c_yen_def

lemmas char_defs =
  cp_def cps_def in_set_def ci_match_def ascii_lower_def py_isspace_def is_digit_def

lemmas parse_defs =
  parse_price_any_def patterns_def price_of_def group_def remove_commas_def py_float_def
  dec_value_def

lemmas matcher_eval = star_in_Nil star_in_Cons

section \<open>The parser\<close>

lemma search_captures:
  assumes "(P, cur) \<in> set patterns" and "search P s = Some m"
  shows "\<exists>g. group m 2 = Some g \<and> amount_shape g"
proof -
  from search_Some_mem [OF assms(2)] obtain t s' where m: "(s', m) \<in> set (rmatch P t [])"
    by blast
  from assms(1) consider "P = pat_usd" | "P = pat_eur" | "P = pat_gbp" | "P = pat_cad"
    | "P = pat_aud" | "P = pat_jpy"
    by (auto simp: patterns_def)
  then show ?thesis
  proof cases
    case 1 with m show ?thesis unfolding pat_usd_def by (blast dest: pat_group_frac)
  next
    case 2 with m show ?thesis unfolding pat_eur_def by (blast dest: pat_group_frac)
  next
    case 3 with m show ?thesis unfolding pat_gbp_def by (blast dest: pat_group_frac)
  next
    case 4 with m show ?thesis unfolding pat_cad_def by (blast dest: pat_group_frac)
  next
    case 5 with m show ?thesis unfolding pat_aud_def by (blast dest: pat_group_frac)
  next
    case 6 with m show ?thesis unfolding pat_jpy_def by (blast dest: pat_group_int)
  qed
qed

lemma price_of_shape:
  assumes "group m 2 = Some g" and "amount_shape g"
  shows "\<exists>v. py_float (remove_commas g) = Some v \<and>
             price_of cur m = Inr (Some \<lparr>currency = cur, amount = Number v\<rparr>)"
proof -
  from py_float_shape [OF assms(2)] obtain v where "py_float (remove_commas g) = Some v"
    by blast
  then show ?thesis using assms(1) by (simp add: price_of_def)
qed

lemma price_of_match:
  assumes "(P, c) \<in> set patterns" and "search P s = Some m"
  shows "\<exists>g v. group m 2 = Some g \<and> amount_shape g \<and> py_float (remove_commas g) = Some v \<and>
               price_of cur m = Inr (Some \<lparr>currency = cur, amount = Number v\<rparr>)"
  using search_captures [OF assms] price_of_shape by blast

lemma priced_Nil [simp]: "\<not> priced ws []"
  by (induction ws) (auto simp: priced_def priced_here_def starts_amount_def split: option.splits
      elim: strip_word.elims)

lemma search_Nil:
  "search pat_usd [] = None" "search pat_eur [] = None" "search pat_gbp [] = None"
  "search pat_cad [] = None" "search pat_aud [] = None" "search pat_jpy [] = None"
  using usd_search [of "[]"] eur_search [of "[]"] gbp_search [of "[]"] cad_search [of "[]"]
    aud_search [of "[]"] jpy_search [of "[]"]
  by simp_all

lemma parse_chain:
  "parse_price_any s =
     (case search pat_usd s of Some m \<Rightarrow> price_of ''USD'' m | None \<Rightarrow>
     (case search pat_eur s of Some m \<Rightarrow> price_of ''EUR'' m | None \<Rightarrow>
     (case search pat_gbp s of Some m \<Rightarrow> price_of ''GBP'' m | None \<Rightarrow>
     (case search pat_cad s of Some m \<Rightarrow> price_of ''CAD'' m | None \<Rightarrow>
     (case search pat_aud s of Some m \<Rightarrow> price_of ''AUD'' m | None \<Rightarrow>
     (case search pat_jpy s of Some m \<Rightarrow> price_of ''JPY'' m | None \<Rightarrow> Inr None))))))"
proof (cases "s = []")
  case True
  then show ?thesis by (simp add: parse_price_any_def search_Nil del: search.simps)
next
  case False
  then show ?thesis by (simp add: parse_price_any_def patterns_def del: search.simps split: option.split)
qed

lemma in_patterns:
  "(pat_usd, ''USD'') \<in> set patterns" "(pat_eur, ''EUR'') \<in> set patterns"
  "(pat_gbp, ''GBP'') \<in> set patterns" "(pat_cad, ''CAD'') \<in> set patterns"
  "(pat_aud, ''AUD'') \<in> set patterns" "(pat_jpy, ''JPY'') \<in> set patterns"
  by (simp_all add: patterns_def)

lemma parse_usd:
  assumes "priced [cps ''USD'', cps ''$''] s"
  shows "\<exists>v. parse_price_any s = Inr (Some \<lparr>currency = ''USD'', amount = Number v\<rparr>)"
proof -
  from assms obtain m where m: "search pat_usd s = Some m"
    using usd_search [of s] by auto
  from price_of_match [OF in_patterns(1) m, of "''USD''"] show ?thesis
    unfolding parse_chain m by auto
qed

lemma try_patterns_result:
  assumes "set ps \<subseteq> set patterns" and "try_patterns ps s = r"
  shows "r = Inr None \<or>
    (\<exists>P cur m g v. (P, cur) \<in> set ps \<and> search P s = Some m \<and> group m 2 = Some g \<and>
       amount_shape g \<and> py_float (remove_commas g) = Some v \<and>
       r = Inr (Some \<lparr>currency = cur, amount = Number v\<rparr>))"
  using assms
proof (induction ps)
  case Nil
  then show ?case by simp
next
  case (Cons pc ps)
  obtain P cur where pc: "pc = (P, cur)" by (cases pc)
  show ?case
  proof (cases "search P s")
    case None
    with Cons pc have "r = Inr None \<or>
      (\<exists>P cur m g v. (P, cur) \<in> set ps \<and> search P s = Some m \<and> group m 2 = Some g \<and>
       amount_shape g \<and> py_float (remove_commas g) = Some v \<and>
       r = Inr (Some \<lparr>currency = cur, amount = Number v\<rparr>))"
      by simp
    then show ?thesis
      using set_subset_Cons [of ps pc] by blast
  next
    case (Some m)
    have "(P, cur) \<in> set patterns" using Cons.prems(1) pc by simp
    from price_of_match [OF this Some, of cur] obtain g v where
      "group m 2 = Some g" "amount_shape g" "py_float (remove_commas g) = Some v"
      "price_of cur m = Inr (Some \<lparr>currency = cur, amount = Number v\<rparr>)" by blast
    moreover have "r = price_of cur m" using Cons.prems(2) pc Some by simp
    ultimately show ?thesis using Some pc list.set_intros(1) [of pc ps] by blast
  qed
qed

lemma parse_never_raises: "parse_price_any s \<noteq> Inl e"
proof (cases "s = []")
  case True
  then show ?thesis by (simp add: parse_price_any_def)
next
  case False
  then have "try_patterns patterns s = parse_price_any s"
    by (simp add: parse_price_any_def)
  from try_patterns_result [OF subset_refl this] show ?thesis by auto
qed

lemma ex_usd: "parse_price_any (cps ''$1,234.56'') =
     Inr (Some \<lparr>currency = ''USD'', amount = Number 1234.56\<rparr>)"
  by (simp add: parse_defs pattern_defs char_defs matcher_eval)

lemma ex_usd_search: "search pat_usd (cps ''$1,234.56'') = Some [(2, cps ''1,234.56''), (1, cps ''$'')]"
  by (simp add: pattern_defs char_defs matcher_eval)

lemma ex_jpy: "parse_price_any (c_yen # cps ''5000'') =
     Inr (Some \<lparr>currency = ''JPY'', amount = Number 5000\<rparr>)"
  by (simp add: parse_defs pattern_defs char_defs matcher_eval)

lemma ex_eur: "parse_price_any (c_euro # cps ''2.000,00'') =
     Inr (Some \<lparr>currency = ''EUR'', amount = Number 2\<rparr>)"
  by (simp add: parse_defs pattern_defs char_defs matcher_eval)

lemma ex_eur_search: "search pat_eur (c_euro # cps ''2.000,00'') = Some [(2, cps ''2.00''), (1, [c_euro])]"
  by (simp add: pattern_defs char_defs matcher_eval)

lemma ex_mixed: "parse_price_any (cps ''$ / '' @ c_euro # cps ''9'') =
     Inr (Some \<lparr>currency = ''EUR'', amount = Number 9\<rparr>)"
  by (simp add: parse_defs pattern_defs char_defs matcher_eval)

lemma ex_occ: "occurs (cps ''$'') (cps ''$ / '' @ c_euro # cps ''9'') \<and> occurs [c_euro] (cps ''$ / '' @ c_euro # cps ''9'')"
  by (simp add: occurs_def char_defs c_euro_def)

lemma ex_nomarker: "\<not> has_marker (cps ''call for price'')"
  by (simp add: has_marker_def marker_words_def occurs_def char_defs c_euro_def c_pound_def c_yen_def)

lemma ex_priced: "priced [cps ''USD'', cps ''$''] (c_euro # cps ''9 / $10'')"
  by (simp add: priced_def priced_here_def starts_amount_def char_defs c_euro_def)

lemma priced_occurs: "priced ws s \<Longrightarrow> \<exists>w\<in>set ws. occurs w s"
  unfolding priced_def occurs_def somewhere_iff list_ex_iff priced_here_iff by blast

lemma priced_split: "priced [wa, wb] s \<longleftrightarrow> priced [wa] s \<or> priced [wb] s"
  unfolding priced_def somewhere_iff by auto

lemma no_marker_no_match:
  assumes "\<not> has_marker s"
  shows "search pat_usd s = None" "search pat_eur s = None" "search pat_gbp s = None"
    "search pat_cad s = None" "search pat_aud s = None" "search pat_jpy s = None"
  using assms usd_search [of s] eur_search [of s] gbp_search [of s] cad_search [of s]
    aud_search [of s] jpy_search [of s]
    priced_occurs [of "[cps ''USD'', cps ''$'']" s]
    priced_occurs [of "[cps ''EUR'', [c_euro]]" s]
    priced_occurs [of "[cps ''GBP'', [c_pound]]" s]
    priced_occurs [of "[cps ''CAD'', cps ''C$'']" s]
    priced_occurs [of "[cps ''AUD'', cps ''A$'']" s]
    priced_occurs [of "[cps ''JPY'', [c_yen]]" s]
  by (auto simp: has_marker_def marker_words_def)

lemma price_of_currency: "price_of cur m = Inr (Some p) \<Longrightarrow> currency p = cur"
  by (auto simp: price_of_def Let_def split: option.splits)

lemma priced_letter_dollar:
  assumes "priced [[l, cp CHR ''$'']] s"
  shows "priced [cps ''$''] s"
proof -
  from assms obtain pre t where t: "s = pre @ t" "priced_here [l, cp CHR ''$''] t"
    unfolding priced_def somewhere_iff by auto
  then obtain x t' where "t = x # t'" "priced_here [cp CHR ''$''] t'"
    by (cases t) (auto simp: priced_here_def split: if_splits)
  then have "s = (pre @ [x]) @ t' \<and> list_ex (\<lambda>w. priced_here w t') [cps ''$'']"
    using t(1) by (simp add: cps_def)
  then show ?thesis unfolding priced_def somewhere_iff by blast
qed

lemma cad_aud_source:
  assumes "parse_price_any s = Inr (Some p)" and "currency p = ''CAD'' \<or> currency p = ''AUD''"
  shows "\<not> priced [cps ''$''] s \<and> priced [cps (currency p)] s"
proof -
  have usd: "search pat_usd s = None"
    using assms unfolding parse_chain
    by (auto split: option.splits dest!: price_of_currency)
  then have nd: "\<not> priced [cps ''$''] s"
    using usd_search [of s] priced_split [of "cps ''USD''" "cps ''$''" s] by simp
  have "(currency p = ''CAD'' \<and> search pat_cad s \<noteq> None) \<or>
        (currency p = ''AUD'' \<and> search pat_aud s \<noteq> None)"
    using assms unfolding parse_chain
    by (auto split: option.splits dest!: price_of_currency)
  then have "(currency p = ''CAD'' \<and> priced [cps ''CAD'', cps ''C$''] s) \<or>
        (currency p = ''AUD'' \<and> priced [cps ''AUD'', cps ''A$''] s)"
    unfolding cad_search aud_search .
  moreover have "\<not> priced [cps ''C$''] s" "\<not> priced [cps ''A$''] s"
    using nd priced_letter_dollar [of "cp CHR ''C''" s] priced_letter_dollar [of "cp CHR ''A''" s]
    by (auto simp: cps_def)
  ultimately show ?thesis
    using nd priced_split [of "cps ''CAD''" "cps ''C$''" s]
      priced_split [of "cps ''AUD''" "cps ''A$''" s] by auto
qed

lemma hd_Seq:
  "rmatch a s c = (s1, c1) # rs \<Longrightarrow> rmatch b s1 c1 = y # rs' \<Longrightarrow>
     \<exists>rs''. rmatch (Seq a b) s c = y # rs''"
  by simp

lemma hd_Grp:
  "rmatch a s c = (s1, c1) # rs \<Longrightarrow>
     \<exists>rs'. rmatch (Grp k a) s c = (s1, (k, take (length s - length s1) s) # c1) # rs'"
  by simp

lemma dropWhile_digits_dot:
  "list_all is_digit g \<Longrightarrow>
     dropWhile is_digit_comma (g @ cp CHR ''.'' # r) = cp CHR ''.'' # r"
  by (induction g) (auto simp: is_digit_comma_def)

lemma in_set_digit_comma_fun: "in_set digit_comma = is_digit_comma"
  by (rule ext) simp

lemma amount_frac_hd:
  assumes "is_digit d" "list_all is_digit g" "is_digit a" "is_digit b"
  shows "\<exists>rs. rmatch amount_frac (d # g @ cp CHR ''.'' # a # b # rest) c = (rest, c) # rs"
proof -
  let ?r = "cp CHR ''.'' # a # b # rest"
  let ?F = "Opt (Seq (lit CHR ''.'') (Seq (In digit) (In digit)))"
  obtain rs1 where s: "rmatch (Star (In digit_comma)) (g @ ?r) c = (?r, c) # rs1"
    using star_in_hd [of digit_comma "g @ ?r" c]
      dropWhile_digits_dot [OF assms(2), of "a # b # rest"]
    unfolding in_set_digit_comma_fun by auto
  have f: "rmatch ?F ?r c = (rest, c) # [(?r, c)]"
    using assms(3,4) by (simp add: lit_def)
  from hd_Seq [OF s f] obtain rs2 where
    "rmatch (Seq (Star (In digit_comma)) ?F) (g @ ?r) c = (rest, c) # rs2" by blast
  moreover have "rmatch (In digit) (d # g @ ?r) c = [(g @ ?r, c)]"
    using assms(1) by simp
  ultimately show ?thesis
    unfolding amount_frac_def by simp
qed

lemma no_usd_chars:
  assumes "priced [cps ''USD'', cps ''$''] s"
  shows "\<exists>x\<in>set s. ci_match (cp CHR ''U'') x \<or> x = cp CHR ''$''"
proof -
  from assms obtain pre t where t: "s = pre @ t"
    "priced_here (cps ''USD'') t \<or> priced_here (cps ''$'') t"
    unfolding priced_two somewhere_iff by blast
  then obtain x t' where "t = x # t'" "ci_match (cp CHR ''U'') x \<or> x = cp CHR ''$''"
    by (cases t) (auto simp: priced_here_def cps_def split: if_splits)
  then show ?thesis using t(1) by auto
qed

lemma european_no_usd:
  assumes "european s g a b rest"
  shows "search pat_usd s = None"
proof -
  have "\<not> (ci_match (cp CHR ''U'') x \<or> x = cp CHR ''$'')" if "x \<in> set s" for x
  proof -
    from that assms have "x = c_euro \<or> is_digit x \<or> x = cp CHR ''.'' \<or> x = cp CHR '',''"
      by (auto simp: european_def list_all_iff)
    then show ?thesis
      by (auto simp: c_euro_def is_digit_def cp_def ci_match_def ascii_lower_def)
  qed
  then have "\<not> priced [cps ''USD'', cps ''$''] s"
    using no_usd_chars [of s] by blast
  then show ?thesis using usd_search [of s] by simp
qed

lemma european_eur_search:
  assumes "european s g a b rest"
  shows "search pat_eur s = Some [(2, g @ [cp CHR ''.'', a, b]), (1, [c_euro])]"
proof -
  from assms obtain d g' where g: "g = d # g'" "is_digit d" "list_all is_digit g'"
    by (cases g) (auto simp: european_def)
  let ?u = "g @ cp CHR ''.'' # a # b # rest"
  have s: "s = c_euro # ?u" and ab: "is_digit a" "is_digit b"
    using assms by (auto simp: european_def)
  have mk: "rmatch (Grp 1 (Alt (word3 CHR ''E'' CHR ''U'' CHR ''R'') (Lit c_euro))) s [] =
              [(?u, [(1, [c_euro])])]"
    unfolding s by (simp add: rmatch_word3 c_euro_def cp_def ci_match_def ascii_lower_def)
  have sp: "rmatch spaces ?u c = [(?u, c)]" for c
    using space_not_digit [of d] g(2) unfolding g(1) spaces_def
    by (auto simp: star_in_Cons)
  obtain rs where "rmatch amount_frac ?u [(1, [c_euro])] = (rest, [(1, [c_euro])]) # rs"
    using amount_frac_hd [OF g(2,3) ab, of rest] unfolding g(1) by auto
  from hd_Grp [OF this, of 2] obtain rs2 where
    "rmatch (Grp 2 amount_frac) ?u [(1, [c_euro])] =
       (rest, [(2, g @ [cp CHR ''.'', a, b]), (1, [c_euro])]) # rs2"
    by auto
  from hd_Seq [OF sp this] obtain rs3 where
    "rmatch (Seq spaces (Grp 2 amount_frac)) ?u [(1, [c_euro])] =
       (rest, [(2, g @ [cp CHR ''.'', a, b]), (1, [c_euro])]) # rs3"
    by blast
  from hd_Seq [OF mk this] obtain rs4 where
    "rmatch pat_eur s [] = (rest, [(2, g @ [cp CHR ''.'', a, b]), (1, [c_euro])]) # rs4"
    unfolding pat_eur_def by blast
  then show ?thesis unfolding s by simp
qed

lemma filter_digits: "list_all is_digit g \<Longrightarrow> filter (\<lambda>x. x \<noteq> cp CHR '','') g = g"
  by (induction g) auto

lemma ex_european:
  "european (c_euro # cps ''1.234,56'') (cps ''1'') (cp CHR ''2'') (cp CHR ''3'') (cps ''4,56'')"
  by (simp add: european_def char_defs)

lemma ex_priced_eur: "priced [cps ''EUR'', [c_euro]] (c_euro # cps ''9 / $10'')"
  by (simp add: priced_def priced_here_def starts_amount_def char_defs c_euro_def)

lemma ex_second: "parse_price_any (c_euro # cps ''9 / $10'') =
     Inr (Some \<lparr>currency = ''USD'', amount = Number 10\<rparr>)"
  by (simp add: parse_defs pattern_defs char_defs matcher_eval)

lemma ex_c_dollar_priced: "priced [cps ''C$'', cps ''A$''] (cps ''C$10'')"
  by (simp add: priced_def priced_here_def starts_amount_def char_defs)

lemma ex_c_dollar: "parse_price_any (cps ''C$10'') =
     Inr (Some \<lparr>currency = ''USD'', amount = Number 10\<rparr>)"
  by (simp add: parse_defs pattern_defs char_defs matcher_eval)

lemma ex_cad: "parse_price_any (cps ''cad 10'') =
     Inr (Some \<lparr>currency = ''CAD'', amount = Number 10\<rparr>)"
  by (simp add: parse_defs pattern_defs char_defs matcher_eval)

section \<open>The price parser\<close>

text \<open>
  C2, as stated, fails: the pattern for EUR does match a price written the European way.
  On the text of the euro sign and 2.000,00 the search finds the euro sign, the digit 2
  and, as the two-digit fraction, the point and the first two digits of the thousands
  group; the parser answers EUR with the amount 2.
\<close>

theorem european_text_is_matched:
  "search pat_eur (c_euro # cps ''2.000,00'') = Some [(2, cps ''2.00''), (1, [c_euro])]
   \<and> parse_price_any (c_euro # cps ''2.000,00'') =
        Inr (Some \<lparr>currency = ''EUR'', amount = Number 2\<rparr>)"
  using ex_eur ex_eur_search by simp

text \<open>
  C2, amended.  On a price written the European way after the euro sign (digits \<open>g\<close>, a
  point, at least two more digits \<open>a\<close> and \<open>b\<close>, then only digits, points and commas)
  the pattern for EUR matches a prefix, read the western way: group 2 is \<open>g\<close>, the point
  and the two digits, and the parser answers EUR with the amount \<open>g.ab\<close>.
\<close>

theorem european_prefix:
  assumes "european s g a b rest"
  shows "search pat_eur s = Some [(2, g @ [cp CHR ''.'', a, b]), (1, [c_euro])] \<and>
         parse_price_any s =
           Inr (Some \<lparr>currency = ''EUR'',
                      amount = Number (of_nat (dec_value (g @ [a, b])) / 100)\<rparr>)"
proof -
  from assms obtain d g' where g: "g = d # g'" "is_digit d" "list_all is_digit g'"
    by (cases g) (auto simp: european_def)
  have ab: "is_digit a" "is_digit b" using assms by (auto simp: european_def)
  have dc: "list_all is_digit_comma g'"
    using g(3) by (simp add: list_all_iff is_digit_comma_def)
  have fr: "frac_ok [cp CHR ''.'', a, b]" using ab by (simp add: frac_ok_def)
  have "py_float (remove_commas (g @ [cp CHR ''.'', a, b])) =
          Some (of_nat (dec_value (g @ [a, b])) / 100)"
    using py_float_amount [OF g(2) dc fr] unfolding g(1)
    by (simp add: filter_digits [OF g(3)])
  then have "price_of ''EUR'' [(2, g @ [cp CHR ''.'', a, b]), (1, [c_euro])] =
          Inr (Some \<lparr>currency = ''EUR'', amount = Number (of_nat (dec_value (g @ [a, b])) / 100)\<rparr>)"
    by (simp add: price_of_def group_def)
  then show ?thesis
    unfolding parse_chain european_no_usd [OF assms] european_eur_search [OF assms] by simp
qed

theorem european_prefix_witness:
  "european (c_euro # cps ''1.234,56'') (cps ''1'') (cp CHR ''2'') (cp CHR ''3'') (cps ''4,56'')
   \<and> search pat_eur (c_euro # cps ''1.234,56'') = Some [(2, cps ''1.23''), (1, [c_euro])]
   \<and> parse_price_any (c_euro # cps ''1.234,56'') =
        Inr (Some \<lparr>currency = ''EUR'', amount = Number 1.23\<rparr>)"
  using ex_european european_prefix [OF ex_european]
  by (simp add: cps_def dec_value_def cp_def)

text \<open>
  C4, as stated, fails: a text can contain a marker of USD and a marker of EUR and be
  parsed as EUR, when no amount follows the marker of USD.
\<close>

theorem usd_marker_without_amount:
  "occurs (cps ''$'') (cps ''$ / '' @ c_euro # cps ''9'')
   \<and> occurs [c_euro] (cps ''$ / '' @ c_euro # cps ''9'')
   \<and> parse_price_any (cps ''$ / '' @ c_euro # cps ''9'') =
        Inr (Some \<lparr>currency = ''EUR'', amount = Number 9\<rparr>)"
  using ex_occ ex_mixed by simp

text \<open>
  C4, amended.  When somewhere in the text the word USD or the sign \<^verbatim>\<open>$\<close> stands with an
  amount after it (white space allowed in between), the pattern for USD matches and
  the parser returns its match, with the currency USD, whatever other markers the text
  contains and wherever they stand.
\<close>

theorem usd_first:
  assumes "priced [cps ''USD'', cps ''$''] s"
  shows "\<exists>m g v. search pat_usd s = Some m \<and> group m 2 = Some g \<and>
           py_float (remove_commas g) = Some v \<and>
           parse_price_any s = Inr (Some \<lparr>currency = ''USD'', amount = Number v\<rparr>)"
proof -
  from assms obtain m where m: "search pat_usd s = Some m"
    using usd_search [of s] by auto
  from price_of_match [OF in_patterns(1) m, of "''USD''"] show ?thesis
    unfolding parse_chain m by auto
qed

theorem usd_first_witness:
  "priced [cps ''USD'', cps ''$''] (c_euro # cps ''9 / $10'')
   \<and> priced [cps ''EUR'', [c_euro]] (c_euro # cps ''9 / $10'')
   \<and> (\<exists>m g v. search pat_usd (c_euro # cps ''9 / $10'') = Some m \<and> group m 2 = Some g \<and>
           py_float (remove_commas g) = Some v \<and>
           parse_price_any (c_euro # cps ''9 / $10'') =
             Inr (Some \<lparr>currency = ''USD'', amount = Number v\<rparr>))
   \<and> parse_price_any (c_euro # cps ''9 / $10'') =
        Inr (Some \<lparr>currency = ''USD'', amount = Number 10\<rparr>)"
  using ex_priced ex_priced_eur ex_second usd_first [OF ex_priced] by blast

text \<open>
  C5.  The text \<^verbatim>\<open>$1,234.56\<close> parses to USD 1234.56, the yen sign with 5000 to JPY 5000,
  the empty text to no match, and so does every text in which no currency marker of
  the patterns occurs.
\<close>

theorem price_examples:
  "parse_price_any (cps ''$1,234.56'') =
     Inr (Some \<lparr>currency = ''USD'', amount = Number 1234.56\<rparr>)
   \<and> parse_price_any (c_yen # cps ''5000'') =
     Inr (Some \<lparr>currency = ''JPY'', amount = Number 5000\<rparr>)
   \<and> parse_price_any [] = Inr None
   \<and> (\<not> has_marker s \<longrightarrow> parse_price_any s = Inr None)"
proof -
  have "parse_price_any s = Inr None" if "\<not> has_marker s"
    unfolding parse_chain by (simp add: no_marker_no_match [OF that])
  moreover have "parse_price_any [] = Inr None"
    by (simp add: parse_price_any_def)
  ultimately show ?thesis
    using ex_usd ex_jpy by blast
qed

theorem price_examples_witness:
  "\<not> has_marker (cps ''call for price'') \<and> parse_price_any (cps ''call for price'') = Inr None"
  using ex_nomarker price_examples [of "cps ''call for price''"] by blast

text \<open>
  C9.  Whenever the parser returns a currency and an amount, one of the six patterns
  matched, its group 2 is a digit, then digits and commas, then nothing or a point and
  two digits, the conversion of that text without its commas succeeds, and the amount
  is the converted number: never the text of the \<open>except ValueError\<close> branch.
\<close>

theorem amount_is_number:
  assumes "parse_price_any s = Inr (Some p)"
  shows "(\<exists>P m g v. (P, currency p) \<in> set patterns \<and> search P s = Some m \<and>
           group m 2 = Some g \<and> amount_shape g \<and>
           py_float (remove_commas g) = Some v \<and> amount p = Number v)
         \<and> (\<forall>t. amount p \<noteq> Text t)"
proof -
  have "s \<noteq> []" using assms by (auto simp: parse_price_any_def)
  then have "try_patterns patterns s = Inr (Some p)"
    using assms by (simp add: parse_price_any_def)
  from try_patterns_result [OF subset_refl this] show ?thesis by auto
qed

theorem amount_is_number_witness:
  "parse_price_any (cps ''$1,234.56'') =
     Inr (Some \<lparr>currency = ''USD'', amount = Number 1234.56\<rparr>)
   \<and> (\<exists>P m g v. (P, ''USD'') \<in> set patterns \<and> search P (cps ''$1,234.56'') = Some m \<and>
           group m 2 = Some g \<and> amount_shape g \<and>
           py_float (remove_commas g) = Some v \<and> Number 1234.56 = Number v)"
  using ex_usd amount_is_number [OF ex_usd] by simp

text \<open>
  C10.  A text in which \<^verbatim>\<open>C$\<close> or \<^verbatim>\<open>A$\<close> stands with an amount after it is parsed as USD.
  When the parser answers CAD or AUD, the sign \<^verbatim>\<open>$\<close> stands nowhere in the text with an
  amount after it, and the word CAD, or AUD, does.
\<close>

theorem dollar_before_cad_aud:
  "(priced [cps ''C$'', cps ''A$''] s \<longrightarrow>
      (\<exists>v. parse_price_any s = Inr (Some \<lparr>currency = ''USD'', amount = Number v\<rparr>))) \<and>
   (parse_price_any s = Inr (Some p) \<and> (currency p = ''CAD'' \<or> currency p = ''AUD'') \<longrightarrow>
      \<not> priced [cps ''$''] s \<and> priced [cps (currency p)] s)"
proof -
  have "\<exists>v. parse_price_any s = Inr (Some \<lparr>currency = ''USD'', amount = Number v\<rparr>)"
    if "priced [cps ''C$'', cps ''A$''] s"
  proof -
    from that have "priced [cps ''$''] s"
      using priced_split [of "cps ''C$''" "cps ''A$''" s]
        priced_letter_dollar [of "cp CHR ''C''" s] priced_letter_dollar [of "cp CHR ''A''" s]
      by (auto simp: cps_def)
    then have "priced [cps ''USD'', cps ''$''] s"
      using priced_split [of "cps ''USD''" "cps ''$''" s] by simp
    from parse_usd [OF this] show ?thesis .
  qed
  then show ?thesis using cad_aud_source [of s p] by blast
qed

theorem dollar_before_cad_aud_witness:
  "priced [cps ''C$'', cps ''A$''] (cps ''C$10'')
   \<and> parse_price_any (cps ''C$10'') = Inr (Some \<lparr>currency = ''USD'', amount = Number 10\<rparr>)
   \<and> parse_price_any (cps ''cad 10'') = Inr (Some \<lparr>currency = ''CAD'', amount = Number 10\<rparr>)
   \<and> \<not> priced [cps ''$''] (cps ''cad 10'') \<and> priced [cps ''CAD''] (cps ''cad 10'')"
  using ex_c_dollar_priced ex_c_dollar ex_cad
    dollar_before_cad_aud [of "cps ''C$10''" "\<lparr>currency = ''CAD'', amount = Number 10\<rparr>"]
    dollar_before_cad_aud [of "cps ''cad 10''" "\<lparr>currency = ''CAD'', amount = Number 10\<rparr>"]
  by simp

section \<open>The listings step and the endpoint\<close>

declare py_str.simps [simp del]

lemma image_upload_guard:
  "(or_empty (content_type img) = [] \<or>
      \<not> startswith (or_empty (content_type img)) (cps ''image/''))
     \<longleftrightarrow> \<not> image_upload img"
  by (auto simp: image_upload_def or_empty_def startswith_def cps_def split: option.splits)




lemma text_is_no_image: "\<not> image_upload text_upload"
  by (simp add: image_upload_def text_upload_def startswith_def cps_def cp_def)

text \<open>The loop over the records never raises, so the \<open>try\<close> block raises only what the
  remote call and the parsing of its output raise.\<close>

lemma annotate_total: "\<exists>rs'. annotate rs = Inr rs' \<and> length rs' = length rs"
proof (induction rs)
  case Nil
  show ?case by simp
next
  case (Cons r rs)
  obtain p where "parse_price_any (or_empty (price_text r)) = Inr p"
    using parse_never_raises [of "or_empty (price_text r)"]
    by (cases "parse_price_any (or_empty (price_text r))") auto
  then show ?case using Cons by auto
qed

lemma try_body_Inl: "try_body reply = Inl e \<longleftrightarrow> reply = Inl e"
proof (cases reply)
  case (Inl a)
  then show ?thesis by (simp add: try_body_def)
next
  case (Inr data)
  show ?thesis
  proof (cases "data_results data")
    case None
    then show ?thesis using Inr by (simp add: try_body_def)
  next
    case (Some rs)
    from annotate_total [of rs] obtain rs' where "annotate rs = Inr rs'" by blast
    then show ?thesis using Inr Some by (simp add: try_body_def)
  qed
qed

text \<open>The fallback queries.\<close>

lemma fallbacks_explicit:
  "fallbacks i =
     (let b = py_strip (or_empty (brand i)); m = py_strip (or_empty (model i));
          c = py_strip (or_empty (category i));
          q1 = b @ cps '' '' @ [c_dquote] @ m @ [c_dquote] @ cps '' price'';
          q2 = b @ cps '' '' @ [c_dquote] @ m @ [c_dquote] @ cps '' '' @ c @ cps '' listing''
      in case or_empty (aliases i) of
           [] \<Rightarrow> [q1, q2]
         | a # _ \<Rightarrow>
             [q1, q2, b @ cps '' '' @ [c_dquote] @ a @ [c_dquote] @ cps '' '' @ c @ cps '' listing''])"
  by (simp add: fallbacks_def Let_def split: list.splits)

lemma length_fallbacks: "2 \<le> length (fallbacks i) \<and> length (fallbacks i) \<le> 3"
  by (simp add: fallbacks_def Let_def split: list.splits)

lemma fallbacks_nonempty: "filter (\<lambda>q. q \<noteq> []) (fallbacks i) = fallbacks i"
  by (simp add: fallbacks_def Let_def split: list.splits)













lemma run_search_down:
  "run search_down 10 =
     ([IdentifyCall, SearchCall],
      Inr (example_ident,
           \<lparr>queries_used = build_queries example_ident, results = Some [],
            error = Some (error_text (cps ''TimeoutError'') (cps ''timed out''))\<rparr>))"
  by (simp add: run_def identify_def search_down_def search_listings_def try_body_def
        example_error_def)

text \<open>
  C1, as stated, fails: the clause of the \<open>try\<close> statement is \<^verbatim>\<open>except Exception\<close>, so an
  exception outside that class, such as the \<open>KeyboardInterrupt\<close> of an interrupted remote
  call, leaves \<^verbatim>\<open>search_listings\<close>.
\<close>

theorem interrupt_leaves_search_listings:
  "search_listings example_ident 10 (Inl (BaseExn (cps ''KeyboardInterrupt'') [])) =
     Inl (BaseExn (cps ''KeyboardInterrupt'') [])"
  by (simp add: search_listings_def try_body_def)

text \<open>
  C1, amended.  Whatever instance of \<open>Exception\<close> leaves the \<open>try\<close> block of
  \<^verbatim>\<open>search_listings\<close> (raised by the remote call or by parsing its output; the loop over
  the records raises nothing), the function returns: the object has \<open>queries_used\<close> equal
  to the query list built locally, an empty \<open>results\<close> list, and an \<open>error\<close> string that is
  not empty and carries the exception's type name and message.
\<close>

theorem search_listings_degrades:
  assumes "try_body reply = Inl (Exn ty msg)"
  shows "reply = Inl (Exn ty msg)
         \<and> search_listings i n reply =
             Inr \<lparr>queries_used = build_queries i, results = Some [],
                  error = Some (cps ''web_search unavailable or failed: '' @ ty @ cps '': ''
                                  @ msg)\<rparr>
         \<and> cps ''web_search unavailable or failed: '' @ ty @ cps '': '' @ msg \<noteq> []"
  using assms try_body_Inl [of reply "Exn ty msg"]
  by (simp add: search_listings_def error_text_def cps_def)

theorem search_listings_degrades_witness:
  "try_body (Inl (Exn (cps ''TimeoutError'') (cps ''timed out''))) =
     Inl (Exn (cps ''TimeoutError'') (cps ''timed out''))
   \<and> search_listings example_ident 10 (Inl (Exn (cps ''TimeoutError'') (cps ''timed out''))) =
       Inr \<lparr>queries_used = build_queries example_ident, results = Some [],
            error = Some (cps ''web_search unavailable or failed: TimeoutError: timed out'')\<rparr>"
proof -
  have h: "try_body (Inl (Exn (cps ''TimeoutError'') (cps ''timed out''))) =
             Inl (Exn (cps ''TimeoutError'') (cps ''timed out''))"
    by (simp add: try_body_def)
  show ?thesis
    using h search_listings_degrades [OF h, of example_ident 10] by (simp add: cps_def)
qed

text \<open>
  C3.  The query list is a function of the identification result alone: the first 8
  suggested queries without the empty ones, then the fallback queries, cut to 10.  The
  fallback queries are two or three texts put together from the stripped brand, model
  and category, and from the first alias when there is one; none of them is empty, so
  none is removed.  The list has at most 10 entries and at least 2, none of them empty,
  and every run of the search step that degrades reports this list, whatever the
  exception and the result limit.
\<close>

theorem build_queries_shape:
  "(let b = py_strip (or_empty (brand i)); m = py_strip (or_empty (model i));
        c = py_strip (or_empty (category i));
        q1 = b @ cps '' '' @ [c_dquote] @ m @ [c_dquote] @ cps '' price'';
        q2 = b @ cps '' '' @ [c_dquote] @ m @ [c_dquote] @ cps '' '' @ c @ cps '' listing'';
        fb = (case or_empty (aliases i) of
                [] \<Rightarrow> [q1, q2]
              | a # _ \<Rightarrow>
                  [q1, q2,
                   b @ cps '' '' @ [c_dquote] @ a @ [c_dquote] @ cps '' '' @ c
                     @ cps '' listing'']);
        sugg = filter (\<lambda>q. q \<noteq> []) (take 8 (or_empty (suggested_queries i)))
    in build_queries i = take 10 (sugg @ fb)
       \<and> length sugg \<le> 8 \<and> 2 \<le> length fb \<and> length fb \<le> 3)
   \<and> length (build_queries i) \<le> 10
   \<and> 2 \<le> length (build_queries i)
   \<and> [] \<notin> set (build_queries i)
   \<and> (\<forall>n ty msg. \<exists>ls. search_listings i n (Inl (Exn ty msg)) = Inr ls \<and>
         queries_used ls = build_queries i)"
proof -
  let ?sugg = "filter (\<lambda>q. q \<noteq> []) (take 8 (or_empty (suggested_queries i)))"
  have a: "build_queries i = take 10 (?sugg @ fallbacks i)"
    by (simp add: build_queries_def Let_def fallbacks_nonempty)
  have s: "length ?sugg \<le> 8"
    by (rule order_trans [OF length_filter_le]) simp
  have b: "length (build_queries i) \<le> 10"
    unfolding a by simp
  have "length (build_queries i) = min (length ?sugg + length (fallbacks i)) 10"
    unfolding a by simp
  then have b2: "2 \<le> length (build_queries i)"
    using length_fallbacks [of i] by linarith
  have c: "[] \<notin> set (build_queries i)"
    unfolding build_queries_def Let_def by (auto dest: in_set_takeD)
  have d: "\<exists>ls. search_listings i n (Inl (Exn ty msg)) = Inr ls \<and>
             queries_used ls = build_queries i" for n ty msg
    by (simp add: search_listings_def try_body_def)
  have e: "(let b = py_strip (or_empty (brand i)); m = py_strip (or_empty (model i));
        c = py_strip (or_empty (category i));
        q1 = b @ cps '' '' @ [c_dquote] @ m @ [c_dquote] @ cps '' price'';
        q2 = b @ cps '' '' @ [c_dquote] @ m @ [c_dquote] @ cps '' '' @ c @ cps '' listing'';
        fb = (case or_empty (aliases i) of
                [] \<Rightarrow> [q1, q2]
              | a # _ \<Rightarrow>
                  [q1, q2,
                   b @ cps '' '' @ [c_dquote] @ a @ [c_dquote] @ cps '' '' @ c
                     @ cps '' listing'']);
        sugg = filter (\<lambda>q. q \<noteq> []) (take 8 (or_empty (suggested_queries i)))
    in build_queries i = take 10 (sugg @ fb)
       \<and> length sugg \<le> 8 \<and> 2 \<le> length fb \<and> length fb \<le> 3)"
    using a s length_fallbacks [of i] unfolding fallbacks_explicit [of i] Let_def by simp
  show ?thesis
    using e b b2 c d by blast
qed

theorem build_queries_shape_witness:
  "build_queries example_ident =
     [cps ''Chanel Classic Flap price'',
      cps ''Chanel '' @ [c_dquote] @ cps ''Classic Flap'' @ [c_dquote] @ cps '' price'',
      cps ''Chanel '' @ [c_dquote] @ cps ''Classic Flap'' @ [c_dquote]
        @ cps '' handbag listing'',
      cps ''Chanel '' @ [c_dquote] @ cps ''2.55'' @ [c_dquote] @ cps '' handbag listing'']"
  using build_queries_shape [of example_ident]
  by (simp add: Let_def example_ident_def or_empty_def py_strip_def char_defs)







text \<open>
  C8.  An upload that declares no content type, or one that does not start with
  \<^verbatim>\<open>image/\<close>, is rejected with status 400 before the body is read and before any remote
  call: the request's trace of effects is empty.
\<close>

theorem predict_rejects_non_image:
  assumes "\<not> image_upload img"
  shows "predict img env = ([], Reject 400 (cps ''Upload an image file.''))"
  using assms image_upload_guard [of img] by (simp add: predict_def)

theorem predict_rejects_non_image_witness:
  "\<not> image_upload text_upload
   \<and> predict text_upload example_remote = ([], Reject 400 (cps ''Upload an image file.''))"
  using text_is_no_image predict_rejects_non_image [OF text_is_no_image, of example_remote]
  by simp

end
